theory Spec2Isabelle
  imports Complex_Main "HOL-Library.Multiset" "HOL-Library.Log_Nat"
begin

section \<open>The subscription record (backend/models/Subscription.js)\<close>

text \<open>
  The model follows \<^verbatim>\<open>subscriptionSchema\<close> and its methods. Conventions:
  \<^item> A \<^verbatim>\<open>Date\<close> that the code subtracts or only stores (a payment's date,
    \<open>lastPaymentDate\<close>, \<open>cancellationDate\<close>) is its time value, the number of
    milliseconds since the epoch, an \<open>int\<close>.
  \<^item> A \<^verbatim>\<open>Date\<close> whose calendar fields the code reads or sets (\<open>nextRenewal\<close>, and the
    current time inside \<^verbatim>\<open>calculateNextRenewal\<close>) is the record \<open>jsdate\<close> of its local
    calendar fields.
  \<^item> Every \<^verbatim>\<open>new Date()\<close>, the current time, is a parameter \<open>now\<close> of the method's model.
  \<^item> A \<^verbatim>\<open>Number\<close> stored in the record (an amount, a score, a count) is a finite
    double and is given by its exact value, a rational or an integer. The analysis computes
    with them as JavaScript does, in IEEE 754 doubles (\<open>jsnumber\<close>): every operation
    rounds its exact result to the nearest double, ties to even, and overflows to an
    infinity. Invalid dates are not modelled.
  \<^item> A method that mutates \<^verbatim>\<open>this\<close> takes the record and returns the updated record.
\<close>

datatype currency = USD | EUR | GBP | AED

text \<open>One element of \<^verbatim>\<open>paymentHistory\<close>.\<close>

record payment =
  date :: int
  amount :: rat
  pcurrency :: string
  emailSubject :: string
  confidence :: rat

text \<open>The argument \<^verbatim>\<open>paymentData\<close> of \<^verbatim>\<open>addPayment\<close>; \<open>None\<close> is a property that is not supplied.\<close>

record paymentData =
  pd_date :: "int option"
  pd_amount :: rat
  pd_currency :: "string option"
  pd_subject :: "string option"
  pd_confidence :: "rat option"

text \<open>A date as local calendar fields: month 0 to 11, day from 1, \<open>tod\<close> the milliseconds since local midnight.\<close>

record jsdate =
  year :: int
  month :: int
  day :: int
  tod :: int

record subscription =
  userId :: string
  serviceName :: string
  samount :: rat
  scurrency :: currency
  renewalDay :: int
  nextRenewal :: "jsdate option"
  category :: string
  description :: string
  isActive :: bool
  detectedFromEmail :: bool
  paymentHistory :: "payment list"
  cancellationDate :: "int option"
  cancellationReason :: string
  lastPaymentDate :: "int option"
  isRecurring :: bool
  confidenceScore :: rat
  hasPaymentHistory :: bool
  hasConsistentRenewalDate :: bool
  paymentCount :: int

subsection \<open>Numbers\<close>

text \<open>
  A \<^verbatim>\<open>Number\<close> is a finite double, given by its exact value, an infinity or NaN. The sign
  of zero is not modelled: the operations used here do not tell \<^verbatim>\<open>-0\<close> from \<^verbatim>\<open>0\<close>, and
  every divisor is a length or a positive constant.
\<close>

datatype jsnumber = Fin rat | PosInf | NegInf | NaN

text \<open>The nearest integer, a tie going to the even one.\<close>

definition round_half_even :: "rat \<Rightarrow> int" where
  "round_half_even q =
     (let f = \<lfloor>q\<rfloor>; r = q - of_int f
      in if r < 1 / 2 then f else if 1 / 2 < r then f + 1 else if even f then f else f + 1)"

text \<open>
  The exponent \<open>e\<close> of a nonzero \<open>q\<close>, with \<open>2\<^sup>e \<le> \<bar>q\<bar> < 2\<^sup>e\<^sup>+\<^sup>1\<close>: the difference of the bit
  lengths of numerator and denominator, or one less.
\<close>

definition binade :: "rat \<Rightarrow> int" where
  "binade q =
     (case quotient_of \<bar>q\<bar> of
        (n, d) \<Rightarrow> let e = bitlen n - bitlen d in if 2 powi e \<le> \<bar>q\<bar> then e else e - 1)"

text \<open>
  The spacing of the doubles around \<open>q\<close>: 52 fraction bits below the exponent, and no
  exponent below -1022 (the subnormal numbers).
\<close>

definition quantum :: "rat \<Rightarrow> rat" where
  "quantum q = 2 powi (max (binade q) (- 1022) - 52)"

text \<open>
  Rounding to the nearest double, ties to even; a result of magnitude \<open>2\<^sup>1\<^sup>0\<^sup>2\<^sup>4\<close> or more
  overflows to an infinity.
\<close>

definition round_double :: "rat \<Rightarrow> jsnumber" where
  "round_double q =
     (if q = 0 then Fin 0
      else let u = quantum q; r = of_int (round_half_even (q / u)) * u
           in if 2 ^ 1024 \<le> \<bar>r\<bar> then (if 0 < q then PosInf else NegInf) else Fin r)"

fun fl_neg :: "jsnumber \<Rightarrow> jsnumber" where
  "fl_neg (Fin a) = Fin (- a)"
| "fl_neg PosInf = NegInf"
| "fl_neg NegInf = PosInf"
| "fl_neg NaN = NaN"

fun fl_abs :: "jsnumber \<Rightarrow> jsnumber" where
  "fl_abs (Fin a) = Fin \<bar>a\<bar>"
| "fl_abs PosInf = PosInf"
| "fl_abs NegInf = PosInf"
| "fl_abs NaN = NaN"

fun fl_add :: "jsnumber \<Rightarrow> jsnumber \<Rightarrow> jsnumber" where
  "fl_add (Fin a) (Fin b) = round_double (a + b)"
| "fl_add NaN y = NaN"
| "fl_add x NaN = NaN"
| "fl_add PosInf NegInf = NaN"
| "fl_add NegInf PosInf = NaN"
| "fl_add PosInf y = PosInf"
| "fl_add NegInf y = NegInf"
| "fl_add x PosInf = PosInf"
| "fl_add x NegInf = NegInf"

definition fl_sub :: "jsnumber \<Rightarrow> jsnumber \<Rightarrow> jsnumber" where
  "fl_sub x y = fl_add x (fl_neg y)"

fun fl_mul :: "jsnumber \<Rightarrow> jsnumber \<Rightarrow> jsnumber" where
  "fl_mul (Fin a) (Fin b) = round_double (a * b)"
| "fl_mul NaN y = NaN"
| "fl_mul x NaN = NaN"
| "fl_mul (Fin a) PosInf = (if a = 0 then NaN else if 0 < a then PosInf else NegInf)"
| "fl_mul (Fin a) NegInf = (if a = 0 then NaN else if 0 < a then NegInf else PosInf)"
| "fl_mul PosInf (Fin b) = (if b = 0 then NaN else if 0 < b then PosInf else NegInf)"
| "fl_mul NegInf (Fin b) = (if b = 0 then NaN else if 0 < b then NegInf else PosInf)"
| "fl_mul PosInf PosInf = PosInf"
| "fl_mul PosInf NegInf = NegInf"
| "fl_mul NegInf PosInf = NegInf"
| "fl_mul NegInf NegInf = PosInf"

text \<open>A zero divisor is \<^verbatim>\<open>+0\<close>.\<close>

fun fl_div :: "jsnumber \<Rightarrow> jsnumber \<Rightarrow> jsnumber" where
  "fl_div (Fin a) (Fin b) =
     (if b = 0 then (if a = 0 then NaN else if 0 < a then PosInf else NegInf)
      else round_double (a / b))"
| "fl_div NaN y = NaN"
| "fl_div x NaN = NaN"
| "fl_div (Fin a) PosInf = Fin 0"
| "fl_div (Fin a) NegInf = Fin 0"
| "fl_div PosInf (Fin b) = (if 0 \<le> b then PosInf else NegInf)"
| "fl_div NegInf (Fin b) = (if 0 \<le> b then NegInf else PosInf)"
| "fl_div PosInf PosInf = NaN"
| "fl_div PosInf NegInf = NaN"
| "fl_div NegInf PosInf = NaN"
| "fl_div NegInf NegInf = NaN"

text \<open>\<^verbatim>\<open>x <= y\<close>; \<^verbatim>\<open>x >= y\<close> is \<open>fl_le y x\<close>. A comparison with NaN is false.\<close>

fun fl_le :: "jsnumber \<Rightarrow> jsnumber \<Rightarrow> bool" where
  "fl_le (Fin a) (Fin b) = (a \<le> b)"
| "fl_le NaN y = False"
| "fl_le x NaN = False"
| "fl_le (Fin a) PosInf = True"
| "fl_le (Fin a) NegInf = False"
| "fl_le PosInf (Fin b) = False"
| "fl_le PosInf PosInf = True"
| "fl_le PosInf NegInf = False"
| "fl_le NegInf (Fin b) = True"
| "fl_le NegInf PosInf = True"
| "fl_le NegInf NegInf = True"

text \<open>The object returned by \<^verbatim>\<open>analyzePaymentConsistency\<close>; the early return has no \<^verbatim>\<open>paymentCount\<close>.\<close>

record analysis =
  isConsistent :: bool
  averageInterval :: jsnumber
  hasMonthlyPattern :: bool
  a_paymentCount :: "nat option"

definition msPerDay :: int where
  "msPerDay = 1000 * 60 * 60 * 24"

subsection \<open>analyzePaymentConsistency\<close>

text \<open>
  JavaScript does not raise on a zero divisor; it yields NaN or an infinity. So that the
  absence of such a division is a property of the model, a quotient whose divisor is a length
  is \<open>None\<close> when the divisor is zero.
\<close>

definition divide_len :: "jsnumber \<Rightarrow> nat \<Rightarrow> jsnumber option" where
  "divide_len x n = (if n = 0 then None else Some (fl_div x (Fin (of_nat n))))"

text \<open>The time value of a date is an integer that a double holds exactly.\<close>

definition timeValue :: "payment \<Rightarrow> jsnumber" where
  "timeValue p = Fin (of_int (date p))"

text \<open>
  \<^verbatim>\<open>for (let i = 1; i < sortedPayments.length; i++) intervals.push(...)\<close>: the loop, with the
  index and the array built so far as arguments.
\<close>

function intervals_loop :: "payment list \<Rightarrow> nat \<Rightarrow> jsnumber list \<Rightarrow> jsnumber list" where
  "intervals_loop sortedPayments i intervals =
     (if i < length sortedPayments
      then intervals_loop sortedPayments (i + 1)
             (intervals @ [fl_div (fl_sub (timeValue (sortedPayments ! i))
                                          (timeValue (sortedPayments ! (i - 1))))
                                  (Fin (of_int msPerDay))])
      else intervals)"
  by pat_completeness auto
termination
  by (relation "measure (\<lambda>(sortedPayments, i, intervals). length sortedPayments - i)") auto

declare intervals_loop.simps [simp del]

text \<open>
  \<^verbatim>\<open>Array.prototype.sort\<close> is stable and sorts the array in place; with the comparator
  \<^verbatim>\<open>(a, b) => new Date(a.date) - new Date(b.date)\<close> it is the stable sort by the key
  \<open>date\<close>. It sorts \<^verbatim>\<open>this.paymentHistory\<close> itself, so the method returns the record with
  the sorted history next to the result object. The literal \<^verbatim>\<open>0.1\<close> is the double nearest
  to one tenth.
\<close>

definition analyzePaymentConsistency :: "subscription \<Rightarrow> (analysis \<times> subscription) option" where
  "analyzePaymentConsistency this =
     (if length (paymentHistory this) < 2
      then Some (\<lparr>isConsistent = False, averageInterval = Fin 0, hasMonthlyPattern = False,
                   a_paymentCount = None\<rparr>, this)
      else
        let sortedPayments = sort_key date (paymentHistory this);
            this' = this\<lparr>paymentHistory := sortedPayments\<rparr>;
            intervals = intervals_loop sortedPayments 1 []
        in case divide_len (foldl fl_add (Fin 0) intervals) (length intervals) of
             None \<Rightarrow> None
           | Some averageInterval' \<Rightarrow>
               let hasMonthlyPattern' =
                     (fl_le (Fin 25) averageInterval' \<and> fl_le averageInterval' (Fin 35));
                   amounts = map (\<lambda>p. Fin (amount p)) sortedPayments
               in (case divide_len (foldl fl_add (Fin 0) amounts) (length amounts) of
                     None \<Rightarrow> None
                   | Some avgAmount \<Rightarrow>
                       let isConsistent' =
                             list_all (\<lambda>a. fl_le (fl_abs (fl_sub a avgAmount))
                                                (fl_mul avgAmount (round_double (1 / 10))))
                                      amounts
                       in Some (\<lparr>isConsistent = isConsistent', averageInterval = averageInterval',
                                 hasMonthlyPattern = hasMonthlyPattern',
                                 a_paymentCount = Some (length (paymentHistory this'))\<rparr>, this')))"

subsection \<open>addPayment\<close>

text \<open>
  \<^verbatim>\<open>x || d\<close> is \<open>d\<close> when \<open>x\<close> is not supplied or falsy: the empty string for a string, 0 for
  a number; a \<^verbatim>\<open>Date\<close> object is never falsy. Both \<^verbatim>\<open>new Date()\<close> of one call read the
  same instant \<open>now\<close>. \<open>paymentEntry\<close> is the object literal that is pushed. The result is
  \<open>None\<close> only if the analysis divides by zero.
\<close>

definition paymentEntry :: "int \<Rightarrow> paymentData \<Rightarrow> payment" where
  "paymentEntry now pd =
     \<lparr>date = (case pd_date pd of Some d \<Rightarrow> d | None \<Rightarrow> now),
      amount = pd_amount pd,
      pcurrency = (case pd_currency pd of
                     Some c \<Rightarrow> if c = [] then ''USD'' else c
                   | None \<Rightarrow> ''USD''),
      emailSubject = (case pd_subject pd of Some t \<Rightarrow> t | None \<Rightarrow> []),
      confidence = (case pd_confidence pd of Some c \<Rightarrow> c | None \<Rightarrow> 0)\<rparr>"

definition addPayment :: "int \<Rightarrow> paymentData \<Rightarrow> subscription \<Rightarrow> subscription option" where
  "addPayment now pd this =
     (let this1 = this\<lparr>paymentHistory := paymentHistory this @ [paymentEntry now pd]\<rparr>;
          this2 = this1\<lparr>lastPaymentDate := Some (case pd_date pd of Some d \<Rightarrow> d | None \<Rightarrow> now)\<rparr>;
          this3 = this2\<lparr>paymentCount := int (length (paymentHistory this2))\<rparr>
      in if paymentCount this3 > 1
         then case analyzePaymentConsistency this3 of
                None \<Rightarrow> None
              | Some (analysis, this4) \<Rightarrow>
                  let this5 = this4\<lparr>isRecurring := True\<rparr>;
                      this6 = this5\<lparr>hasConsistentRenewalDate := hasMonthlyPattern analysis\<rparr>;
                      this7 = this6\<lparr>hasPaymentHistory := True\<rparr>
                  in if isConsistent analysis \<and> hasMonthlyPattern analysis
                     then Some (this7\<lparr>confidenceScore := max (confidenceScore this7) 8\<rparr>)
                     else Some this7
         else Some this3)"

subsection \<open>cancelSubscription\<close>

text \<open>The default parameter value applies when the argument is not supplied (\<open>None\<close>).\<close>

definition cancelSubscription :: "int \<Rightarrow> string option \<Rightarrow> subscription \<Rightarrow> subscription" where
  "cancelSubscription now reason this =
     (let this1 = this\<lparr>isActive := False\<rparr>;
          this2 = this1\<lparr>cancellationDate := Some now\<rparr>
      in this2\<lparr>cancellationReason := (case reason of None \<Rightarrow> ''User cancelled'' | Some r \<Rightarrow> r)\<rparr>)"

subsection \<open>isLikelyValid\<close>

text \<open>\<^verbatim>\<open>Math.floor\<close> of the quotient of two integers is \<open>div\<close> on \<open>int\<close>, which rounds down.\<close>

definition daysSinceLastPayment :: "int \<Rightarrow> subscription \<Rightarrow> int" where
  "daysSinceLastPayment now this =
     (case lastPaymentDate this of
        Some l \<Rightarrow> (now - l) div (1000 * 60 * 60 * 24)
      | None \<Rightarrow> 999)"

definition isLikelyValid :: "int \<Rightarrow> subscription \<Rightarrow> bool" where
  "isLikelyValid now this =
     (let days = daysSinceLastPayment now this
      in if days > 180 then False
         else if paymentCount this > 1 \<and> isRecurring this \<and> days \<le> 90 then True
         else if paymentCount this = 1 \<and> confidenceScore this \<ge> 6 \<and> days \<le> 60 then True
         else if days \<le> 30 \<and> confidenceScore this \<ge> 4 then True
         else False)"

subsection \<open>The calendar operations of Date that calculateNextRenewal uses\<close>

definition isLeapYear :: "int \<Rightarrow> bool" where
  "isLeapYear y = (y mod 4 = 0 \<and> (y mod 100 \<noteq> 0 \<or> y mod 400 = 0))"

definition daysInMonth :: "int \<Rightarrow> int \<Rightarrow> int" where
  "daysInMonth y m =
     (if m = 1 then (if isLeapYear y then 29 else 28)
      else if m = 3 \<or> m = 5 \<or> m = 8 \<or> m = 10 then 30
      else 31)"

definition prevMonth :: "int \<Rightarrow> int \<Rightarrow> int \<times> int" where
  "prevMonth y m = (if m = 0 then (y - 1, 11) else (y, m - 1))"

definition nextMonth :: "int \<Rightarrow> int \<Rightarrow> int \<times> int" where
  "nextMonth y m = (if m = 11 then (y + 1, 0) else (y, m + 1))"

text \<open>
  A day number outside the month carries into the months before or after, as the
  \<^verbatim>\<open>Date\<close> constructor and setters do: day 0 is the last day of the month before, day 31 of
  a 30-day month is the first day of the next month.
\<close>

function carryDay :: "int \<Rightarrow> int \<Rightarrow> int \<Rightarrow> int \<times> int \<times> int" where
  "carryDay y m d =
     (if d < 1 then
        (case prevMonth y m of (y', m') \<Rightarrow> carryDay y' m' (d + daysInMonth y' m'))
      else if d > daysInMonth y m then
        (case nextMonth y m of (y', m') \<Rightarrow> carryDay y' m' (d - daysInMonth y m))
      else (y, m, d))"
  by pat_completeness auto
termination
  by (relation "measure (\<lambda>(y, m, d). if d < 1 then nat (1 - d) + 32 else nat d)")
     (auto simp: daysInMonth_def)

declare carryDay.simps [simp del]

definition makeDate :: "int \<Rightarrow> int \<Rightarrow> int \<Rightarrow> int \<Rightarrow> jsdate" where
  "makeDate y m d t =
     (case carryDay (y + m div 12) (m mod 12) d of
        (y', m', d') \<Rightarrow> \<lparr>year = y', month = m', day = d', tod = t\<rparr>)"

text \<open>\<^verbatim>\<open>new Date(year, month, day)\<close>: local midnight; a year from 0 to 99 means 1900 + year.\<close>

definition newDate :: "int \<Rightarrow> int \<Rightarrow> int \<Rightarrow> jsdate" where
  "newDate y m d = makeDate (if 0 \<le> y \<and> y \<le> 99 then 1900 + y else y) m d 0"

definition setMonth :: "jsdate \<Rightarrow> int \<Rightarrow> jsdate" where
  "setMonth dt m = makeDate (year dt) m (day dt) (tod dt)"

definition setDate :: "jsdate \<Rightarrow> int \<Rightarrow> jsdate" where
  "setDate dt d = makeDate (year dt) (month dt) d (tod dt)"

text \<open>\<^verbatim>\<open>a <= b\<close> and \<^verbatim>\<open>a < b\<close> on dates compare the instants.\<close>

definition date_less :: "jsdate \<Rightarrow> jsdate \<Rightarrow> bool" where
  "date_less a b =
     (year a < year b \<or> (year a = year b \<and>
       (month a < month b \<or> (month a = month b \<and>
         (day a < day b \<or> (day a = day b \<and> tod a < tod b))))))"

definition date_le :: "jsdate \<Rightarrow> jsdate \<Rightarrow> bool" where
  "date_le a b = (date_less a b \<or> a = b)"

text \<open>The values a \<^verbatim>\<open>Date\<close> can hold.\<close>

definition valid_date :: "jsdate \<Rightarrow> bool" where
  "valid_date dt =
     (0 \<le> month dt \<and> month dt \<le> 11 \<and> 1 \<le> day dt \<and> day dt \<le> daysInMonth (year dt) (month dt)
      \<and> 0 \<le> tod dt \<and> tod dt < msPerDay)"

subsection \<open>calculateNextRenewal and the pre-save hook\<close>

definition calculateNextRenewal :: "jsdate \<Rightarrow> subscription \<Rightarrow> jsdate" where
  "calculateNextRenewal now this =
     (let nextRenewal0 = newDate (year now) (month now) (renewalDay this);
          nextRenewal1 = (if date_le nextRenewal0 now
                          then setMonth nextRenewal0 (month nextRenewal0 + 1)
                          else nextRenewal0);
          nextRenewal2 = (if day nextRenewal1 \<noteq> renewalDay this
                          then setDate nextRenewal1 0
                          else nextRenewal1)
      in nextRenewal2)"

text \<open>
  \<^verbatim>\<open>subscriptionSchema.pre('save', ...)\<close>; \<open>modifiedRenewalDay\<close> is
  \<^verbatim>\<open>this.isModified('renewalDay')\<close> and \<open>isNew\<close> is \<^verbatim>\<open>this.isNew\<close>.
\<close>

definition preSave :: "jsdate \<Rightarrow> bool \<Rightarrow> bool \<Rightarrow> subscription \<Rightarrow> subscription" where
  "preSave now modifiedRenewalDay isNew this =
     (let this1 = (if nextRenewal this = None \<or> modifiedRenewalDay \<or> isNew
                   then this\<lparr>nextRenewal := Some (calculateNextRenewal now this)\<rparr>
                   else this);
          this2 = (if cancellationDate this1 \<noteq> None
                   then this1\<lparr>nextRenewal := None\<rparr>
                   else this1)
      in this2)"

subsection \<open>Sequences of method calls\<close>

datatype operation =
    AddPayment paymentData
  | CancelSubscription "string option"
  | AnalyzePaymentConsistency
  | IsLikelyValid

text \<open>One call at the instant \<open>now\<close>; the value a query returns is dropped, its effect on the record kept.\<close>

fun exec :: "int \<Rightarrow> operation \<Rightarrow> subscription \<Rightarrow> subscription option" where
  "exec now (AddPayment pd) this = addPayment now pd this"
| "exec now (CancelSubscription reason) this = Some (cancelSubscription now reason this)"
| "exec now AnalyzePaymentConsistency this = map_option snd (analyzePaymentConsistency this)"
| "exec now IsLikelyValid this = (let r = isLikelyValid now this in Some this)"

fun run :: "(int \<times> operation) list \<Rightarrow> subscription \<Rightarrow> subscription option" where
  "run [] this = Some this"
| "run ((now, op) # ops) this =
     (case exec now op this of None \<Rightarrow> None | Some this' \<Rightarrow> run ops this')"

fun isAddPayment :: "operation \<Rightarrow> bool" where
  "isAddPayment (AddPayment pd) = True"
| "isAddPayment op = False"

text \<open>The number of \<^verbatim>\<open>addPayment\<close> calls in a sequence of calls.\<close>

definition addPaymentCalls :: "(int \<times> operation) list \<Rightarrow> nat" where
  "addPaymentCalls ops = length (filter (\<lambda>(now, op). isAddPayment op) ops)"

subsection \<open>A new record\<close>

text \<open>A document created with the required fields; every other field has the schema's default.\<close>

definition newSubscription :: "string \<Rightarrow> string \<Rightarrow> rat \<Rightarrow> currency \<Rightarrow> int \<Rightarrow> subscription" where
  "newSubscription uid name amt cur rd =
     \<lparr>userId = uid, serviceName = name, samount = amt, scurrency = cur, renewalDay = rd,
      nextRenewal = None, category = ''Other'', description = [], isActive = True,
      detectedFromEmail = False, paymentHistory = [], cancellationDate = None,
      cancellationReason = [], lastPaymentDate = None, isRecurring = False,
      confidenceScore = 0, hasPaymentHistory = False, hasConsistentRenewalDate = False,
      paymentCount = 0\<rparr>"

text \<open>The part of a new record that the payment methods read.\<close>

definition fresh :: "subscription \<Rightarrow> bool" where
  "fresh this = (paymentHistory this = [] \<and> paymentCount this = 0 \<and> \<not> isRecurring this)"

section \<open>The specification's wording\<close>

text \<open>
  The definitions of this section are written from the specification's sentences, not from
  the code; the theorems below compare them with the methods.
\<close>

subsection \<open>The analysis in exact arithmetic\<close>

definition spec_mean :: "rat list \<Rightarrow> rat" where
  "spec_mean xs = sum_list xs / of_nat (length xs)"

text \<open>The day-gaps between consecutive events of a list.\<close>

definition spec_day_gaps :: "payment list \<Rightarrow> rat list" where
  "spec_day_gaps ps = map (\<lambda>(p, q). of_int (date q - date p) / of_int msPerDay) (zip ps (tl ps))"

definition spec_averageInterval :: "payment list \<Rightarrow> rat" where
  "spec_averageInterval ps = spec_mean (spec_day_gaps (sort_key date ps))"

definition spec_hasMonthlyPattern :: "payment list \<Rightarrow> bool" where
  "spec_hasMonthlyPattern ps = (25 \<le> spec_averageInterval ps \<and> spec_averageInterval ps \<le> 35)"

definition spec_isConsistent :: "payment list \<Rightarrow> bool" where
  "spec_isConsistent ps =
     list_all (\<lambda>p. \<bar>amount p - spec_mean (map amount ps)\<bar> \<le> (1 / 10) * spec_mean (map amount ps)) ps"

subsection \<open>The analysis in double arithmetic\<close>

text \<open>The sum from 0 in the order of the list, each addition rounded, divided by the length.\<close>

definition double_mean :: "jsnumber list \<Rightarrow> jsnumber" where
  "double_mean xs = fl_div (foldl fl_add (Fin 0) xs) (Fin (of_nat (length xs)))"

definition double_day_gaps :: "payment list \<Rightarrow> jsnumber list" where
  "double_day_gaps ps =
     map (\<lambda>(p, q). fl_div (fl_sub (timeValue q) (timeValue p)) (Fin (of_int msPerDay)))
         (zip ps (tl ps))"

text \<open>An amount is within the tolerance of a mean: the rounded difference against the rounded tenth.\<close>

definition within_tolerance :: "jsnumber \<Rightarrow> rat \<Rightarrow> bool" where
  "within_tolerance avg a =
     fl_le (fl_abs (fl_sub (Fin a) avg)) (fl_mul avg (round_double (1 / 10)))"

text \<open>The mean amount, summed in date order.\<close>

definition double_avgAmount :: "payment list \<Rightarrow> jsnumber" where
  "double_avgAmount ps = double_mean (map (\<lambda>p. Fin (amount p)) (sort_key date ps))"

definition double_averageInterval :: "payment list \<Rightarrow> jsnumber" where
  "double_averageInterval ps = double_mean (double_day_gaps (sort_key date ps))"

text \<open>The analysis result for a history of at least two events.\<close>

definition double_analysis :: "payment list \<Rightarrow> analysis" where
  "double_analysis ps =
     \<lparr>isConsistent = (\<forall>p \<in> set ps. within_tolerance (double_avgAmount ps) (amount p)),
      averageInterval = double_averageInterval ps,
      hasMonthlyPattern = (fl_le (Fin 25) (double_averageInterval ps)
                           \<and> fl_le (double_averageInterval ps) (Fin 35)),
      a_paymentCount = Some (length ps)\<rparr>"

subsection \<open>The validity rules\<close>

definition truncate_toward_zero :: "rat \<Rightarrow> int" where
  "truncate_toward_zero q = (if q < 0 then \<lceil>q\<rceil> else \<lfloor>q\<rfloor>)"

definition spec_daysSinceLastPayment :: "int \<Rightarrow> subscription \<Rightarrow> int" where
  "spec_daysSinceLastPayment now this =
     (case lastPaymentDate this of
        None \<Rightarrow> 999
      | Some l \<Rightarrow> truncate_toward_zero (of_int (now - l) / of_int msPerDay))"

text \<open>Rules as pairs of a condition and a verdict, evaluated in order; the first match wins.\<close>

fun first_match :: "(bool \<times> bool) list \<Rightarrow> bool \<Rightarrow> bool" where
  "first_match [] otherwise = otherwise"
| "first_match ((condition, verdict) # rules) otherwise =
     (if condition then verdict else first_match rules otherwise)"

definition spec_isLikelyValid :: "int \<Rightarrow> subscription \<Rightarrow> bool" where
  "spec_isLikelyValid now this =
     (let days = spec_daysSinceLastPayment now this
      in first_match
           [(days > 180, False),
            (paymentCount this > 1 \<and> isRecurring this \<and> days \<le> 90, True),
            (paymentCount this = 1 \<and> confidenceScore this \<ge> 6 \<and> days \<le> 60, True),
            (days \<le> 30 \<and> confidenceScore this \<ge> 4, True)]
           False)"

subsection \<open>Example data\<close>

text \<open>
  A call argument with only a date and an amount, the payment stored for it, and a new record
  holding a given history.
\<close>

definition examplePaymentData :: "int \<Rightarrow> rat \<Rightarrow> paymentData" where
  "examplePaymentData d a =
     \<lparr>pd_date = Some d, pd_amount = a, pd_currency = None, pd_subject = None,
      pd_confidence = None\<rparr>"

definition examplePayment :: "int \<Rightarrow> rat \<Rightarrow> payment" where
  "examplePayment d a = paymentEntry 0 (examplePaymentData d a)"

definition exampleSubscription :: "payment list \<Rightarrow> subscription" where
  "exampleSubscription ps =
     (newSubscription ''u1'' ''Streaming'' 10 USD 31)\<lparr>paymentHistory := ps\<rparr>"

subsection \<open>The state after a number of recorded payments\<close>

text \<open>
  What \<open>n\<close> calls of \<^verbatim>\<open>addPayment\<close> on a new record establish: the history has \<open>n\<close>
  events, \<open>paymentCount\<close> is \<open>n\<close>, and \<open>isRecurring\<close> is set exactly from the second call on.
\<close>

definition payments_recorded :: "nat \<Rightarrow> subscription \<Rightarrow> bool" where
  "payments_recorded n this =
     (length (paymentHistory this) = n \<and> paymentCount this = int n
      \<and> isRecurring this = (2 \<le> n))"

section \<open>Properties of the rounding\<close>

text \<open>
  What makes \<open>round_double\<close> the rounding of IEEE 754: \<open>binade\<close> is the exponent of its
  argument (\<open>binade_bounds\<close>), so \<open>quantum\<close> is the spacing of the doubles there; the result
  is a whole number of spacings, the nearest one, the even one at a tie
  (\<open>round_double_normal\<close>, \<open>round_half_even_error\<close>); it errs by at most half a spacing
  (\<open>round_double_Fin_error\<close>); integers below \<open>2\<^sup>5\<^sup>3\<close> and subnormal multiples of
  \<open>2\<^sup>-\<^sup>1\<^sup>0\<^sup>7\<^sup>4\<close> are left as they are.
\<close>

lemma two_powi_pos: "0 < (2::rat) powi k"
  by simp

lemma two_powi_le: "k \<le> l \<Longrightarrow> (2::rat) powi k \<le> 2 powi l"
  by (rule power_int_increasing) simp_all

lemma two_powi_less_cancel: "(2::rat) powi k < 2 powi l \<Longrightarrow> k < l"
  using two_powi_le [of l k] by (cases "k < l") auto

lemma bitlen_pow_bounds:
  assumes "0 < n"
  shows "(2::rat) powi (bitlen n - 1) \<le> of_int n" and "of_int n < (2::rat) powi bitlen n"
proof -
  from assms have b: "1 \<le> bitlen n"
    using bitlen_eq_zero_iff [of n] bitlen_nonneg [of n] by linarith
  from bitlen_bounds [OF assms] have "(2::int) ^ nat (bitlen n - 1) \<le> n" "n < 2 ^ nat (bitlen n)"
    by simp_all
  then have "(of_int ((2::int) ^ nat (bitlen n - 1)) :: rat) \<le> of_int n"
    and "(of_int n :: rat) < of_int (2 ^ nat (bitlen n))"
    by (simp_all only: of_int_le_iff of_int_less_iff)
  with b show "(2::rat) powi (bitlen n - 1) \<le> of_int n" and "of_int n < (2::rat) powi bitlen n"
    by (simp_all add: power_int_def)
qed

lemma binade_bounds:
  assumes "q \<noteq> 0"
  shows "2 powi binade q \<le> \<bar>q\<bar>" and "\<bar>q\<bar> < 2 powi (binade q + 1)"
proof -
  obtain n d where nd: "quotient_of \<bar>q\<bar> = (n, d)"
    by (cases "quotient_of \<bar>q\<bar>")
  then have d: "0 < d" and q: "\<bar>q\<bar> = of_int n / of_int d"
    by (simp_all add: quotient_of_denom_pos quotient_of_div)
  from assms have "0 < \<bar>q\<bar>"
    by simp
  with d q have n: "0 < n"
    by (simp add: zero_less_divide_iff)
  let ?e = "bitlen n - bitlen d"
  note bn = bitlen_pow_bounds [OF n] and bd = bitlen_pow_bounds [OF d]
  have d': "0 < (of_int d :: rat)"
    using d by simp
  have up: "\<bar>q\<bar> < 2 powi (?e + 1)"
  proof -
    have "of_int n < (2::rat) powi bitlen n"
      by (rule bn)
    also have "\<dots> = 2 powi (?e + 1) * 2 powi (bitlen d - 1)"
      by (simp add: power_int_add [symmetric])
    also have "\<dots> \<le> 2 powi (?e + 1) * of_int d"
      using bd(1) by (simp add: mult_left_mono)
    finally show ?thesis
      using d' by (simp add: q pos_divide_less_eq)
  qed
  have low: "2 powi (?e - 1) \<le> \<bar>q\<bar>"
  proof -
    have "2 powi (?e - 1) * of_int d \<le> 2 powi (?e - 1) * (2::rat) powi bitlen d"
      using bd(2) by (simp add: mult_left_mono)
    also have "\<dots> = 2 powi (bitlen n - 1)"
      by (simp add: power_int_add [symmetric])
    also have "\<dots> \<le> of_int n"
      by (rule bn)
    finally show ?thesis
      using d' by (simp add: q pos_le_divide_eq)
  qed
  show "2 powi binade q \<le> \<bar>q\<bar>"
    using low by (simp add: binade_def nd Let_def)
  show "\<bar>q\<bar> < 2 powi (binade q + 1)"
    using up by (auto simp: binade_def nd Let_def not_le)
qed

lemma binade_eqI:
  assumes "2 powi e \<le> \<bar>q\<bar>" and "\<bar>q\<bar> < 2 powi (e + 1)"
  shows "binade q = e"
proof -
  from assms(1) two_powi_pos [of e] have "0 < \<bar>q\<bar>"
    by linarith
  then have "q \<noteq> 0"
    by simp
  note b = binade_bounds [OF this]
  from b(1) assms(2) have "(2::rat) powi binade q < 2 powi (e + 1)"
    by simp
  then have "binade q < e + 1"
    by (rule two_powi_less_cancel)
  moreover from assms(1) b(2) have "(2::rat) powi e < 2 powi (binade q + 1)"
    by simp
  then have "e < binade q + 1"
    by (rule two_powi_less_cancel)
  ultimately show ?thesis
    by simp
qed

lemma round_half_even_error: "\<bar>of_int (round_half_even y) - y\<bar> \<le> 1 / 2"
proof -
  have "of_int \<lfloor>y\<rfloor> \<le> y" and "y < of_int \<lfloor>y\<rfloor> + 1"
    by linarith+
  then show ?thesis
    by (auto simp: round_half_even_def Let_def)
qed

lemma round_half_even_of_int: "round_half_even (of_int n) = n"
  by (simp add: round_half_even_def)

lemma round_half_even_nonneg: "0 \<le> y \<Longrightarrow> 0 \<le> round_half_even y"
  by (auto simp: round_half_even_def Let_def)

lemma quantum_pos: "0 < quantum q"
  by (simp add: quantum_def)

lemma quantum_le:
  assumes "q \<noteq> 0"
  shows "quantum q \<le> 2 powi (- 1074) + 2 powi (- 52) * \<bar>q\<bar>"
proof (cases "- 1022 \<le> binade q")
  case True
  then have "quantum q = 2 powi (- 52 + binade q)"
    by (simp add: quantum_def max_def)
  also have "\<dots> = 2 powi (- 52) * 2 powi binade q"
    by (rule power_int_add) simp
  also have "\<dots> \<le> 2 powi (- 52) * \<bar>q\<bar>"
    using binade_bounds(1) [OF assms] by (intro mult_left_mono) simp_all
  finally show ?thesis
    using two_powi_pos [of "- 1074"] by linarith
next
  case False
  then have "quantum q = 2 powi (- 1074)"
    by (simp add: quantum_def max_def)
  moreover have "0 \<le> 2 powi (- 52) * \<bar>q\<bar>"
    by simp
  ultimately show ?thesis
    by linarith
qed


lemma round_double_not_NaN: "round_double q \<noteq> NaN"
  by (simp add: round_double_def Let_def)

lemma round_double_NegInf: "round_double q = NegInf \<Longrightarrow> q < 0"
  by (auto simp: round_double_def Let_def split: if_splits)

lemma rounded_error:
  "\<bar>of_int (round_half_even (q / quantum q)) * quantum q - q\<bar> \<le> quantum q / 2"
proof -
  let ?u = "quantum q"
  have u: "0 < ?u"
    by (rule quantum_pos)
  have "of_int (round_half_even (q / ?u)) * ?u - q = (of_int (round_half_even (q / ?u)) - q / ?u) * ?u"
    using u by (simp add: algebra_simps)
  then have "\<bar>of_int (round_half_even (q / ?u)) * ?u - q\<bar>
               = \<bar>of_int (round_half_even (q / ?u)) - q / ?u\<bar> * ?u"
    using u by (simp add: abs_mult)
  also have "\<dots> \<le> (1 / 2) * ?u"
    using u round_half_even_error [of "q / ?u"] by (intro mult_right_mono) simp_all
  finally show ?thesis
    by simp
qed

lemma round_double_Fin_error:
  assumes "round_double q = Fin r"
  shows "\<bar>r - q\<bar> \<le> quantum q / 2"
proof (cases "q = 0")
  case True
  with assms quantum_pos [of q] show ?thesis
    by (simp add: round_double_def)
next
  case False
  with assms have "r = of_int (round_half_even (q / quantum q)) * quantum q"
    by (simp add: round_double_def Let_def split: if_splits)
  with rounded_error [of q] show ?thesis
    by simp
qed

lemma round_double_Fin_nonneg:
  assumes "round_double q = Fin r" and "0 \<le> q"
  shows "0 \<le> r"
proof (cases "q = 0")
  case True
  with assms show ?thesis
    by (simp add: round_double_def)
next
  case False
  with assms have r: "r = of_int (round_half_even (q / quantum q)) * quantum q"
    by (simp add: round_double_def Let_def split: if_splits)
  from assms(2) quantum_pos [of q] have "0 \<le> q / quantum q"
    by simp
  from round_half_even_nonneg [OF this] quantum_pos [of q] show ?thesis
    by (simp add: r)
qed

lemma round_double_Fin_less: "round_double q = Fin r \<Longrightarrow> \<bar>r\<bar> < 2 ^ 1024"
  by (auto simp: round_double_def Let_def split: if_splits)

text \<open>The error of one rounding: at most half the spacing, which is relative but for the subnormal numbers.\<close>

lemma round_double_error_bound:
  assumes "round_double q = Fin r"
  shows "\<bar>r - q\<bar> \<le> 2 powi (- 1075) + 2 powi (- 53) * \<bar>q\<bar>"
proof (cases "q = 0")
  case True
  with assms show ?thesis
    by (simp add: round_double_def)
next
  case False
  have h: "(2::rat) powi (- 1075) = 2 powi (- 1074) / 2" "(2::rat) powi (- 53) = 2 powi (- 52) / 2"
    by (simp_all add: power_int_minus)
  from round_double_Fin_error [OF assms] quantum_le [OF False] show ?thesis
    unfolding h by (simp add: field_simps)
qed

lemma round_double_infinite_large:
  assumes "round_double q = PosInf \<or> round_double q = NegInf"
  shows "2 ^ 1023 \<le> \<bar>q\<bar>"
proof -
  from assms have q: "q \<noteq> 0"
    by (auto simp: round_double_def)
  let ?r = "of_int (round_half_even (q / quantum q)) * quantum q"
  from assms q have big: "2 ^ 1024 \<le> \<bar>?r\<bar>"
    by (auto simp: round_double_def Let_def split: if_splits)
  have "\<bar>?r\<bar> \<le> \<bar>q\<bar> + quantum q / 2"
    using rounded_error [of q] by linarith
  also have "\<dots> \<le> \<bar>q\<bar> + (2 powi (- 1074) + 2 powi (- 52) * \<bar>q\<bar>) / 2"
    using quantum_le [OF q] by simp
  finally have le: "2 ^ 1024 \<le> \<bar>q\<bar> + (2 powi (- 1074) + 2 powi (- 52) * \<bar>q\<bar>) / 2"
    using big by linarith
  define X :: rat where "X = 2 ^ 1023"
  define A :: rat where "A = 2 powi (- 1074)"
  define B :: rat where "B = 2 powi (- 52) * \<bar>q\<bar>"
  have X: "(2::rat) ^ 1024 = 2 * X" "1 \<le> X"
    by (simp_all add: X_def)
  have A: "A \<le> 1"
    unfolding A_def using two_powi_le [of "- 1074" 0] by simp
  have "(2::rat) powi (- 52) \<le> 1"
    using two_powi_le [of "- 52" 0] by simp
  then have "2 powi (- 52) * \<bar>q\<bar> \<le> 1 * \<bar>q\<bar>"
    by (intro mult_right_mono) simp_all
  then have B: "B \<le> \<bar>q\<bar>"
    by (simp add: B_def)
  from le have "2 * X \<le> \<bar>q\<bar> + (A + B) / 2"
    by (simp only: X(1) A_def B_def)
  then have "4 * X \<le> 2 * \<bar>q\<bar> + (A + B)"
    by (simp add: field_simps)
  with A B X(2) have "X \<le> \<bar>q\<bar>"
    by linarith
  then show ?thesis
    by (simp add: X_def)
qed


text \<open>How a number in the normal range rounds, given its exponent.\<close>

lemma round_double_normal:
  assumes "2 powi e \<le> \<bar>q\<bar>" and "\<bar>q\<bar> < 2 powi (e + 1)" and "- 1022 \<le> e" and "e \<le> 1022"
  shows "round_double q = Fin (of_int (round_half_even (q / 2 powi (e - 52))) * 2 powi (e - 52))"
proof -
  from assms(1) two_powi_pos [of e] have "0 < \<bar>q\<bar>"
    by linarith
  then have q: "q \<noteq> 0"
    by simp
  have b: "binade q = e"
    using assms(1,2) by (rule binade_eqI)
  with assms(3) have u: "quantum q = 2 powi (e - 52)"
    by (simp add: quantum_def max_def)
  define X :: rat where "X = 2 ^ 1023"
  have X: "(2::rat) ^ 1024 = 2 * X" "X = 2 powi 1023"
    by (simp_all add: X_def)
  let ?r = "of_int (round_half_even (q / quantum q)) * quantum q"
  have "\<bar>?r\<bar> \<le> \<bar>q\<bar> + quantum q / 2"
    using rounded_error [of q] by linarith
  moreover have "\<bar>q\<bar> < X"
    using assms(2) two_powi_le [of "e + 1" 1023] assms(4) unfolding X(2) by linarith
  moreover have "quantum q \<le> X"
    using two_powi_le [of "e - 52" 1023] assms(4) unfolding X(2) u by linarith
  ultimately have "\<not> 2 ^ 1024 \<le> \<bar>?r\<bar>"
    unfolding X(1) by linarith
  with q show ?thesis
    by (simp add: round_double_def Let_def u)
qed

lemma round_half_even_nearest:
  assumes "\<bar>y - of_int k\<bar> < 1 / 2"
  shows "round_half_even y = k"
proof -
  from assms round_half_even_error [of y]
  have "\<bar>(of_int (round_half_even y) :: rat) - of_int k\<bar> < 1"
    by linarith
  then have "\<bar>round_half_even y - k\<bar> < 1"
    by (simp flip: of_int_diff of_int_abs)
  then show ?thesis
    by linarith
qed

text \<open>
  Evaluation: \<open>q\<close> with exponent \<open>e\<close> rounds to \<open>k\<close> spacings when \<open>k\<close> is the integer
  nearest to \<open>q\<close> in spacings.
\<close>

lemma round_double_evalI:
  assumes "2 powi e \<le> \<bar>q\<bar>" and "\<bar>q\<bar> < 2 powi (e + 1)" and "- 1022 \<le> e" and "e \<le> 1022"
    and "\<bar>q / 2 powi (e - 52) - of_int k\<bar> < 1 / 2" and "r = of_int k * 2 powi (e - 52)"
  shows "round_double q = Fin r"
  using round_double_normal [OF assms(1-4)] round_half_even_nearest [OF assms(5)] assms(6)
  by simp

text \<open>An integer below \<open>2\<^sup>5\<^sup>3\<close> in magnitude is a double.\<close>

lemma round_double_of_int:
  assumes "\<bar>n\<bar> < 2 ^ 53"
  shows "round_double (of_int n) = Fin (of_int n)"
proof (cases "n = 0")
  case True
  then show ?thesis
    by (simp add: round_double_def)
next
  case False
  let ?q = "of_int n :: rat"
  let ?e = "binade ?q"
  from False have q: "?q \<noteq> 0"
    by simp
  note b = binade_bounds [OF q]
  from assms have "\<bar>?q\<bar> < 2 powi 53"
    by (simp flip: of_int_abs)
  with b(1) have "(2::rat) powi ?e < 2 powi 53"
    by linarith
  then have e53: "?e < 53"
    by (rule two_powi_less_cancel)
  from False have "1 \<le> \<bar>n\<bar>"
    by simp
  then have "(1::rat) \<le> \<bar>?q\<bar>"
    by (simp flip: of_int_abs)
  with b(2) have "(2::rat) powi 0 < 2 powi (?e + 1)"
    by simp
  then have e0: "0 \<le> ?e"
    using two_powi_less_cancel [of 0 "?e + 1"] by simp
  have "2 powi (?e - 52) = 1 / (2::rat) ^ nat (52 - ?e)"
    using e53 by (simp add: power_int_def field_simps)
  then have d: "?q / 2 powi (?e - 52) = of_int (n * 2 ^ nat (52 - ?e))"
    by simp
  from e0 e53 have "- 1022 \<le> ?e" and "?e \<le> 1022"
    by linarith+
  then have "round_double ?q = Fin (of_int (round_half_even (?q / 2 powi (?e - 52))) * 2 powi (?e - 52))"
    by (rule round_double_normal [OF b])
  also have "round_half_even (?q / 2 powi (?e - 52)) = n * 2 ^ nat (52 - ?e)"
    unfolding d by (rule round_half_even_of_int)
  also have "of_int (n * 2 ^ nat (52 - ?e)) * 2 powi (?e - 52) = ?q"
    using d by (simp add: field_simps)
  finally show ?thesis .
qed

lemma round_double_numeral [simp]:
  "numeral w < (2::int) ^ 53 \<Longrightarrow> round_double (numeral w) = Fin (numeral w)"
  using round_double_of_int [of "numeral w"] by simp

lemma round_double_zero [simp]: "round_double 0 = Fin 0"
  by (simp add: round_double_def)

lemma tenth: "round_double (1 / 10) = Fin (3602879701896397 / 36028797018963968)"
  by (rule round_double_evalI [where e = "- 4" and k = 7205759403792794])
     simp_all


text \<open>Below \<open>2\<^sup>-\<^sup>1\<^sup>0\<^sup>2\<^sup>2\<close> the doubles are the multiples of \<open>2\<^sup>-\<^sup>1\<^sup>0\<^sup>7\<^sup>4\<close>.\<close>

lemma quantum_subnormal:
  assumes "\<bar>q\<bar> < 2 powi (- 1022)" and "q \<noteq> 0"
  shows "quantum q = 2 powi (- 1074)"
proof -
  from binade_bounds(1) [OF assms(2)] assms(1) have "(2::rat) powi binade q < 2 powi (- 1022)"
    by linarith
  then have "binade q < - 1022"
    by (rule two_powi_less_cancel)
  then show ?thesis
    by (simp add: quantum_def max_def)
qed

lemma round_double_subnormal_exact:
  assumes "\<bar>q\<bar> < 2 powi (- 1022)" and "q = of_int m * 2 powi (- 1074)"
  shows "round_double q = Fin q"
proof (cases "q = 0")
  case True
  then show ?thesis
    by simp
next
  case False
  note u = quantum_subnormal [OF assms(1) False]
  have "q / quantum q = of_int m"
    unfolding u by (subst assms(2)) simp
  then have r: "of_int (round_half_even (q / quantum q)) * quantum q = q"
    unfolding u by (simp add: round_half_even_of_int assms(2) [symmetric])
  have "(2::rat) powi (- 1022) \<le> 2 powi 1024"
    by (rule two_powi_le) simp
  with assms(1) have "\<not> 2 ^ 1024 \<le> \<bar>q\<bar>"
    by simp
  with False r show ?thesis
    by (simp add: round_double_def Let_def)
qed

lemma double_subnormal_multiple:
  assumes "round_double a = Fin a" and "\<bar>a\<bar> < 2 powi (- 1022)"
  shows "\<exists>m. a = of_int m * 2 powi (- 1074)"
proof (cases "a = 0")
  case True
  then show ?thesis
    by (intro exI [of _ 0]) simp
next
  case False
  with assms(1) have "a = of_int (round_half_even (a / quantum a)) * quantum a"
    by (simp add: round_double_def Let_def split: if_splits)
  with quantum_subnormal [OF assms(2) False] show ?thesis
    by metis
qed

text \<open>The error of one rounding against a reference magnitude \<open>A\<close> that is not subnormal.\<close>

lemma round_double_error_rel:
  assumes "round_double q = Fin r" and "2 powi (- 1024) \<le> A"
  shows "9007199254740992 * \<bar>r - q\<bar> \<le> 4 * A + \<bar>q\<bar>"
proof -
  have "(2::rat) powi (- 1075) = 2 powi (- 1024) * 2 powi (- 51)"
    by (simp add: power_int_add [symmetric])
  also have "\<dots> \<le> A * 2 powi (- 51)"
    using assms(2) by (intro mult_right_mono) simp_all
  finally have "9007199254740992 * (2::rat) powi (- 1075) \<le> 4 * A"
    by (simp add: power_int_minus field_simps)
  moreover have "9007199254740992 * ((2::rat) powi (- 53) * \<bar>q\<bar>) = \<bar>q\<bar>"
    by (simp add: power_int_minus field_simps)
  moreover have "9007199254740992 * \<bar>r - q\<bar>
                   \<le> 9007199254740992 * (2 powi (- 1075) + 2 powi (- 53) * \<bar>q\<bar>)"
    using round_double_error_bound [OF assms(1)] by (intro mult_left_mono) simp_all
  ultimately show ?thesis
    by (simp only: distrib_left)
qed

lemma three_roundings_near:
  fixes a :: rat
  assumes "9007199254740992 * \<bar>x2 - (a + a)\<bar> \<le> 4 * a + (a + a)"
    and "9007199254740992 * \<bar>x3 - (x2 + a)\<bar> \<le> 4 * a + (x2 + a)"
    and "9007199254740992 * \<bar>v - y\<bar> \<le> 4 * a + y"
    and "3 * y = x3" and "0 < a"
  shows "281474976710656 * \<bar>a - v\<bar> \<le> a"
  using assms by (auto simp: abs_if split: if_splits)

lemma difference_within_tenth:
  fixes a :: rat
  assumes "281474976710656 * \<bar>a - v\<bar> \<le> a"
    and "9007199254740992 * \<bar>w - (a - v)\<bar> \<le> 4 * a + \<bar>a - v\<bar>"
    and "9007199254740992 * \<bar>t - z\<bar> \<le> 4 * a + z"
    and "36028797018963968 * z = 3602879701896397 * v" and "0 < a"
  shows "\<bar>w\<bar> \<le> t"
  using assms by (auto simp: abs_if split: if_splits)

lemma small_difference:
  fixes a :: rat
  assumes "281474976710656 * \<bar>a - v\<bar> \<le> a" and "a < 2 * X" and "1 \<le> X" and "0 < a"
  shows "\<not> X \<le> \<bar>a - v\<bar>"
  using assms by (auto simp: abs_if split: if_splits)

lemma round_double_nonneg_cases:
  assumes "0 \<le> q"
  obtains r where "round_double q = Fin r" and "0 \<le> r" | "round_double q = PosInf"
proof (cases "round_double q")
  case (Fin r)
  with round_double_Fin_nonneg [OF Fin assms] that(1) show ?thesis
    by blast
next
  case PosInf
  with that(2) show ?thesis
    by blast
next
  case NegInf
  with round_double_NegInf [OF NegInf] assms show ?thesis
    by simp
next
  case NaN
  with round_double_not_NaN [of q] show ?thesis
    by simp
qed

lemma fl_le_zero_round_double: "0 \<le> q \<Longrightarrow> fl_le (Fin 0) (round_double q)"
  by (erule round_double_nonneg_cases) simp_all

lemma within_tolerance_PosInf: "within_tolerance PosInf a"
  by (simp add: within_tolerance_def fl_sub_def tenth)

section \<open>Equal amounts are consistent\<close>

text \<open>
  Three equal amounts \<open>a \<ge> 0\<close>, where \<open>a\<close> is a double. Their sum and its third are rounded,
  so the mean need not be \<open>a\<close>; it is within the tolerance all the same. A subnormal \<open>a\<close>
  is summed and divided exactly. Otherwise each rounding errs by less than \<open>a / 2\<^sup>5\<^sup>0\<close>, or
  overflows, and an infinite mean is within the (infinite) tolerance.
\<close>

lemma equal_amounts_subnormal:
  assumes d: "round_double a = Fin a" and nn: "0 \<le> a" and small: "a < 2 powi (- 1024)"
  shows "within_tolerance (double_mean [Fin a, Fin a, Fin a]) a"
proof -
  have P: "(2::rat) powi (- 1022) = 4 * 2 powi (- 1024)"
    by (simp add: power_int_minus)
  have P0: "0 < (2::rat) powi (- 1024)"
    by (rule two_powi_pos)
  from nn small P P0 have lt: "\<bar>a\<bar> < 2 powi (- 1022)" "\<bar>a + a\<bar> < 2 powi (- 1022)"
    "\<bar>a + a + a\<bar> < 2 powi (- 1022)"
    by linarith+
  from double_subnormal_multiple [OF d lt(1)] obtain m where m: "a = of_int m * 2 powi (- 1074)"
    by blast
  have "a + a = of_int (2 * m) * 2 powi (- 1074)" "a + a + a = of_int (3 * m) * 2 powi (- 1074)"
    by (simp_all add: m algebra_simps)
  with lt have s2: "round_double (a + a) = Fin (a + a)" and s3: "round_double (a + a + a) = Fin (a + a + a)"
    by (simp_all only: round_double_subnormal_exact)
  have "(a + a + a) / 3 = a"
    by simp
  with s2 s3 d have "double_mean [Fin a, Fin a, Fin a] = Fin a"
    by (simp add: double_mean_def)
  moreover from nn have "0 \<le> a * (3602879701896397 / 36028797018963968)"
    by simp
  ultimately show ?thesis
    using fl_le_zero_round_double
    by (simp add: within_tolerance_def fl_sub_def tenth)
qed


lemma equal_amounts_normal:
  assumes d: "round_double a = Fin a" and big: "2 powi (- 1024) \<le> a"
  shows "within_tolerance (double_mean [Fin a, Fin a, Fin a]) a"
proof -
  let ?c = "3602879701896397 / 36028797018963968 :: rat"
  from big two_powi_pos [of "- 1024"] have a: "0 < a"
    by linarith
  have mean: "double_mean [Fin a, Fin a, Fin a] = fl_div (fl_add (round_double (a + a)) (Fin a)) (Fin 3)"
    by (simp add: double_mean_def d)
  from a have "0 \<le> a + a"
    by simp
  then show ?thesis
  proof (cases rule: round_double_nonneg_cases)
    case 2
    then show ?thesis
      by (simp add: mean within_tolerance_PosInf)
  next
    case (1 x2)
    from round_double_error_rel [OF 1(1) big] a
    have e2: "9007199254740992 * \<bar>x2 - (a + a)\<bar> \<le> 4 * a + (a + a)"
      by simp
    from 1(2) a have "0 \<le> x2 + a"
      by simp
    then show ?thesis
    proof (cases rule: round_double_nonneg_cases)
      case 2
      with 1(1) show ?thesis
        by (simp add: mean within_tolerance_PosInf)
    next
      case x3: (1 x3)
      from round_double_error_rel [OF x3(1) big] 1(2) a
      have e3: "9007199254740992 * \<bar>x3 - (x2 + a)\<bar> \<le> 4 * a + (x2 + a)"
        by simp
      from x3(2) have "0 \<le> x3 / 3"
        by simp
      then show ?thesis
      proof (cases rule: round_double_nonneg_cases)
        case 2
        with 1(1) x3(1) show ?thesis
          by (simp add: mean within_tolerance_PosInf)
      next
        case v: (1 v)
        from round_double_error_rel [OF v(1) big] x3(2)
        have ev: "9007199254740992 * \<bar>v - x3 / 3\<bar> \<le> 4 * a + x3 / 3"
          by simp
        from 1(1) x3(1) v(1) have avg: "double_mean [Fin a, Fin a, Fin a] = Fin v"
          by (simp add: mean)
        have near: "281474976710656 * \<bar>a - v\<bar> \<le> a"
          using e2 e3 ev _ a by (rule three_roundings_near) simp
        define X :: rat where "X = 2 ^ 1023"
        have X: "(2::rat) ^ 1024 = 2 * X" "1 \<le> X"
          by (simp_all add: X_def)
        from round_double_Fin_less [OF d] have "\<bar>a\<bar> < 2 * X"
          by (simp only: X(1))
        then have "a < 2 * X"
          by linarith
        with near have small: "\<not> 2 ^ 1023 \<le> \<bar>a - v\<bar>"
          using X(2) a unfolding X_def [symmetric] by (rule small_difference)
        have "\<exists>w. round_double (a - v) = Fin w"
        proof (cases "round_double (a - v)")
          case (Fin w)
          then show ?thesis
            by blast
        next
          case NaN
          with round_double_not_NaN [of "a - v"] show ?thesis
            by simp
        next
          case PosInf
          then have "2 ^ 1023 \<le> \<bar>a - v\<bar>"
            by (intro round_double_infinite_large) simp
          with small show ?thesis
            by simp
        next
          case NegInf
          then have "2 ^ 1023 \<le> \<bar>a - v\<bar>"
            by (intro round_double_infinite_large) simp
          with small show ?thesis
            by simp
        qed
        then obtain w where w: "round_double (a - v) = Fin w"
          by blast
        note ew = round_double_error_rel [OF w big]
        from v(2) have "0 \<le> v * ?c"
          by simp
        then show ?thesis
        proof (cases rule: round_double_nonneg_cases)
          case 2
          with w show ?thesis
            by (simp add: avg within_tolerance_def fl_sub_def tenth)
        next
          case t: (1 t)
          from round_double_error_rel [OF t(1) big] v(2)
          have et: "9007199254740992 * \<bar>t - v * ?c\<bar> \<le> 4 * a + v * ?c"
            by simp
          have "\<bar>w\<bar> \<le> t"
            using near ew et _ a by (rule difference_within_tenth) simp
          with w t(1) show ?thesis
            by (simp add: avg within_tolerance_def fl_sub_def tenth)
        qed
      qed
    qed
  qed
qed

lemma equal_amounts_within_tolerance:
  assumes "round_double a = Fin a" and "0 \<le> a"
  shows "within_tolerance (double_mean [Fin a, Fin a, Fin a]) a"
proof (cases "a < 2 powi (- 1024)")
  case True
  with assms show ?thesis
    by (rule equal_amounts_subnormal)
next
  case False
  with assms(1) show ?thesis
    by (intro equal_amounts_normal) simp_all
qed


section \<open>Worked examples\<close>

lemma round_double_neg_numeral [simp]:
  "numeral w < (2::int) ^ 53 \<Longrightarrow> round_double (- numeral w) = Fin (- numeral w)"
  using round_double_of_int [of "- numeral w"] by simp

lemma round_half_even_tie:
  assumes "2 * y = 2 * of_int k - 1" and "even k"
  shows "round_half_even y = k"
proof -
  from assms(1) have y: "y = of_int (k - 1) + 1 / 2"
    by (simp add: field_simps)
  have "\<lfloor>y\<rfloor> = k - 1"
    unfolding y by (rule floor_unique) simp_all
  moreover from assms(2) have "odd (k - 1)"
    by simp
  ultimately show ?thesis
    by (simp add: round_half_even_def Let_def y)
qed

lemma round_double_eval_tieI:
  assumes "2 powi e \<le> \<bar>q\<bar>" and "\<bar>q\<bar> < 2 powi (e + 1)" and "- 1022 \<le> e" and "e \<le> 1022"
    and "2 * (q / 2 powi (e - 52)) = 2 * of_int k - 1" and "even k"
    and "r = of_int k * 2 powi (e - 52)"
  shows "round_double q = Fin r"
  using round_double_normal [OF assms(1-4)] round_half_even_tie [OF assms(5,6)] assms(7)
  by simp

lemma double_mean_two: "double_mean [x, y] = fl_div (fl_add (fl_add (Fin 0) x) y) (Fin 2)"
  by (simp add: double_mean_def)

lemma double_mean_three:
  "double_mean [x, y, z] = fl_div (fl_add (fl_add (fl_add (Fin 0) x) y) z) (Fin 3)"
  by (simp add: double_mean_def)

lemma sort_key_date_three:
  "date p1 \<le> date p2 \<Longrightarrow> date p2 \<le> date p3 \<Longrightarrow> sort_key date [p1, p2, p3] = [p1, p2, p3]"
  by (intro sort_key_id_if_sorted) simp

text \<open>Payments 30 days apart: each gap is exactly 30, and so is the mean.\<close>

lemma double_averageInterval_monthly:
  assumes "date p1 = t + 30 * msPerDay" and "date p2 = t + 60 * msPerDay"
    and "date p3 = t + 90 * msPerDay"
  shows "double_averageInterval [p1, p2, p3] = Fin 30"
proof -
  from assms have "sort_key date [p1, p2, p3] = [p1, p2, p3]"
    by (intro sort_key_date_three) (simp_all add: msPerDay_def)
  moreover from assms have "double_day_gaps [p1, p2, p3] = [Fin 30, Fin 30]"
    by (simp add: double_day_gaps_def timeValue_def fl_sub_def msPerDay_def)
  ultimately show ?thesis
    by (simp add: double_averageInterval_def double_mean_two)
qed

lemma double_avgAmount_equal:
  assumes "date p1 \<le> date p2" and "date p2 \<le> date p3"
    and "amount p1 = a" and "amount p2 = a" and "amount p3 = a"
  shows "double_avgAmount [p1, p2, p3] = double_mean [Fin a, Fin a, Fin a]"
  using assms by (simp add: double_avgAmount_def sort_key_date_three)

text \<open>Amounts 10 and 50, in either order: the mean is 30, the tolerance 3, and 10 is 20 away.\<close>

lemma ten_and_fifty:
  assumes "amount p = 10" and "amount q = 50"
  shows "\<not> within_tolerance (double_avgAmount [p, q]) 10"
    and "\<not> within_tolerance (double_avgAmount [q, p]) 10"
proof -
  have m: "double_mean [Fin 10, Fin 50] = Fin 30" "double_mean [Fin 50, Fin 10] = Fin 30"
    by (simp_all add: double_mean_two)
  have t: "fl_mul (Fin 30) (round_double (1 / 10)) = Fin 3"
    unfolding tenth fl_mul.simps
    by (rule round_double_evalI [where e = 1 and k = 6755399441055744]) simp_all
  have "\<not> within_tolerance (Fin 30) 10"
    unfolding within_tolerance_def t by (simp add: fl_sub_def)
  moreover from assms have "double_avgAmount [p, q] = Fin 30" "double_avgAmount [q, p] = Fin 30"
    by (simp_all add: double_avgAmount_def m)
  ultimately show "\<not> within_tolerance (double_avgAmount [p, q]) 10"
    and "\<not> within_tolerance (double_avgAmount [q, p]) 10"
    by simp_all
qed


subsection \<open>Roundings of the examples\<close>

lemma ce1_sum2: "fl_add (Fin 3) (Fin (7 / 2)) = Fin (13 / 2)"
proof -
  have "fl_add (Fin 3) (Fin (7 / 2)) = round_double (3 + (7 / 2))"
    by simp
  also have "\<dots> = Fin (13 / 2)"
    by (rule round_double_evalI [where e = 2 and k = 7318349394477056]) simp_all
  finally show ?thesis .
qed

lemma ce1_mean: "fl_div (Fin 10) (Fin 3) = Fin (7505999378950827 / 2251799813685248)"
proof -
  have "fl_div (Fin 10) (Fin 3) = round_double (10 / 3)"
    by simp
  also have "\<dots> = Fin (7505999378950827 / 2251799813685248)"
    by (rule round_double_evalI [where e = 1 and k = 7505999378950827]) simp_all
  finally show ?thesis .
qed

lemma ce1_diff: "fl_sub (Fin 3) (Fin (7505999378950827 / 2251799813685248)) = Fin (- (750599937895083 / 2251799813685248))"
proof -
  have "fl_sub (Fin 3) (Fin (7505999378950827 / 2251799813685248)) = round_double (3 - (7505999378950827 / 2251799813685248))"
    by (simp add: fl_sub_def)
  also have "\<dots> = Fin (- (750599937895083 / 2251799813685248))"
    by (rule round_double_evalI [where e = "- 2" and k = "- 6004799503160664"]) simp_all
  finally show ?thesis .
qed

lemma ce1_tol: "fl_mul (Fin (7505999378950827 / 2251799813685248)) (Fin (3602879701896397 / 36028797018963968)) = Fin (3002399751580331 / 9007199254740992)"
proof -
  have "fl_mul (Fin (7505999378950827 / 2251799813685248)) (Fin (3602879701896397 / 36028797018963968)) = round_double ((7505999378950827 / 2251799813685248) * (3602879701896397 / 36028797018963968))"
    by simp
  also have "\<dots> = Fin (3002399751580331 / 9007199254740992)"
    by (rule round_double_evalI [where e = "- 2" and k = 6004799503160662]) simp_all
  finally show ?thesis .
qed

lemma ce2_tol: "fl_mul (Fin (- 5)) (Fin (3602879701896397 / 36028797018963968)) = Fin (- (1 / 2))"
proof -
  have "fl_mul (Fin (- 5)) (Fin (3602879701896397 / 36028797018963968)) = round_double ((- 5) * (3602879701896397 / 36028797018963968))"
    by simp
  also have "\<dots> = Fin (- (1 / 2))"
    by (rule round_double_evalI [where e = "- 1" and k = "- 4503599627370496"]) simp_all
  finally show ?thesis .
qed

lemma ce3_gap2: "fl_div (Fin 4748400000) (Fin 86400000) = Fin (7734697797528235 / 140737488355328)"
proof -
  have "fl_div (Fin 4748400000) (Fin 86400000) = round_double (4748400000 / 86400000)"
    by simp
  also have "\<dots> = Fin (7734697797528235 / 140737488355328)"
    by (rule round_double_evalI [where e = 5 and k = 7734697797528235]) simp_all
  finally show ?thesis .
qed

lemma ce3_gap3: "fl_div (Fin 2163600000) (Fin 86400000) = Fin (7048602541796011 / 281474976710656)"
proof -
  have "fl_div (Fin 2163600000) (Fin 86400000) = round_double (2163600000 / 86400000)"
    by simp
  also have "\<dots> = Fin (7048602541796011 / 281474976710656)"
    by (rule round_double_evalI [where e = 4 and k = 7048602541796011]) simp_all
  finally show ?thesis .
qed

lemma ce3_sum2: "fl_add (Fin 25) (Fin (7734697797528235 / 140737488355328)) = Fin (2813283751602859 / 35184372088832)"
proof -
  have "fl_add (Fin 25) (Fin (7734697797528235 / 140737488355328)) = round_double (25 + (7734697797528235 / 140737488355328))"
    by simp
  also have "\<dots> = Fin (2813283751602859 / 35184372088832)"
    by (rule round_double_eval_tieI [where e = 6 and k = 5626567503205718]) simp_all
  finally show ?thesis .
qed

lemma ce3_sum3: "fl_add (Fin (2813283751602859 / 35184372088832)) (Fin (7048602541796011 / 281474976710656)) = Fin (7388718138654721 / 70368744177664)"
proof -
  have "fl_add (Fin (2813283751602859 / 35184372088832)) (Fin (7048602541796011 / 281474976710656)) = round_double ((2813283751602859 / 35184372088832) + (7048602541796011 / 281474976710656))"
    by simp
  also have "\<dots> = Fin (7388718138654721 / 70368744177664)"
    by (rule round_double_evalI [where e = 6 and k = 7388718138654721]) simp_all
  finally show ?thesis .
qed

lemma ce3_mean: "fl_div (Fin (7388718138654721 / 70368744177664)) (Fin 3) = Fin (4925812092436481 / 140737488355328)"
proof -
  have "fl_div (Fin (7388718138654721 / 70368744177664)) (Fin 3) = round_double ((7388718138654721 / 70368744177664) / 3)"
    by simp
  also have "\<dots> = Fin (4925812092436481 / 140737488355328)"
    by (rule round_double_evalI [where e = 5 and k = 4925812092436481]) simp_all
  finally show ?thesis .
qed

text \<open>Amounts 3, 3.5 and 3.5: the mean rounds up, the tolerance rounds down, and 3 falls outside.\<close>

lemma three_and_two_halves:
  "double_mean [Fin 3, Fin (7 / 2), Fin (7 / 2)] = Fin (7505999378950827 / 2251799813685248)"
  "\<not> within_tolerance (Fin (7505999378950827 / 2251799813685248)) 3"
proof -
  have "fl_add (Fin 0) (Fin 3) = Fin 3" "fl_add (Fin (13 / 2)) (Fin (7 / 2)) = Fin 10"
    by simp_all
  then show "double_mean [Fin 3, Fin (7 / 2), Fin (7 / 2)] = Fin (7505999378950827 / 2251799813685248)"
    by (simp only: double_mean_three ce1_sum2 ce1_mean)
  show "\<not> within_tolerance (Fin (7505999378950827 / 2251799813685248)) 3"
    unfolding within_tolerance_def tenth ce1_diff ce1_tol by simp
qed

text \<open>Three amounts of -5: the mean is -5 and the tolerance is negative.\<close>

lemma three_negative:
  "double_mean [Fin (- 5), Fin (- 5), Fin (- 5)] = Fin (- 5)"
  "\<not> within_tolerance (Fin (- 5)) (- 5)"
proof -
  show "double_mean [Fin (- 5), Fin (- 5), Fin (- 5)] = Fin (- 5)"
    by (simp add: double_mean_three)
  show "\<not> within_tolerance (Fin (- 5)) (- 5)"
    unfolding within_tolerance_def tenth ce2_tol by (simp add: fl_sub_def)
qed

text \<open>Gaps of 600, 1319 and 601 hours: the exact mean is 35 days, the computed one is above.\<close>

lemma hour_gaps:
  "double_mean [Fin 25, Fin (7734697797528235 / 140737488355328),
                Fin (7048602541796011 / 281474976710656)]
     = Fin (4925812092436481 / 140737488355328)"
proof -
  have "fl_add (Fin 0) (Fin 25) = Fin 25"
    by simp
  then show ?thesis
    by (simp only: double_mean_three ce3_sum2 ce3_sum3 ce3_mean)
qed


lemma ce3_gap1: "fl_div (Fin 2160000000) (Fin 86400000) = Fin 25"
  by simp

section \<open>Properties of the analysis\<close>

lemma intervals_loop_eq:
  "1 \<le> i \<Longrightarrow> intervals_loop ps i acc =
     acc @ map (\<lambda>k. fl_div (fl_sub (timeValue (ps ! k)) (timeValue (ps ! (k - 1))))
                         (Fin (of_int msPerDay))) [i..<length ps]"
proof (induction ps i acc rule: intervals_loop.induct)
  case (1 ps i acc)
  show ?case
  proof (cases "i < length ps")
    case True
    then have "[i..<length ps] = i # [i + 1..<length ps]"
      by (simp add: upt_conv_Cons)
    with True 1 show ?thesis
      by (subst intervals_loop.simps) simp
  next
    case False
    then show ?thesis
      by (subst intervals_loop.simps) simp
  qed
qed

lemma double_day_gaps_eq:
  "double_day_gaps ps =
     map (\<lambda>k. fl_div (fl_sub (timeValue (ps ! k)) (timeValue (ps ! (k - 1))))
                (Fin (of_int msPerDay))) [1..<length ps]"
  unfolding double_day_gaps_def
  by (rule nth_equalityI) (auto simp: nth_tl)

lemma intervals_loop_gaps: "intervals_loop ps 1 [] = double_day_gaps ps"
  by (simp add: intervals_loop_eq double_day_gaps_eq)

lemma length_double_day_gaps: "length (double_day_gaps ps) = length ps - 1"
  by (simp add: double_day_gaps_def)

text \<open>
  The result depends on the order of the history only through the sort, so the analysis of a
  history already sorted by the method reports the same.
\<close>

lemma double_analysis_sort: "double_analysis (sort_key date ps) = double_analysis ps"
proof -
  have "sort_key date (sort_key date ps) = sort_key date ps"
    by (rule sort_key_id_if_sorted) (rule sorted_sort_key)
  then show ?thesis
    by (simp add: double_analysis_def double_avgAmount_def double_averageInterval_def)
qed

lemma analyze_two_or_more:
  assumes "2 \<le> length (paymentHistory this)"
  shows "analyzePaymentConsistency this =
           Some (double_analysis (paymentHistory this),
                 this\<lparr>paymentHistory := sort_key date (paymentHistory this)\<rparr>)"
proof -
  let ?h = "paymentHistory this"
  let ?s = "sort_key date ?h"
  let ?iv = "intervals_loop ?s 1 []"
  have iv: "?iv = double_day_gaps ?s"
    by (rule intervals_loop_gaps)
  have "length ?iv = length ?h - 1"
    by (simp only: iv length_double_day_gaps length_sort)
  with assms have d1: "divide_len (foldl fl_add (Fin 0) ?iv) (length ?iv)
                         = Some (double_averageInterval ?h)"
    by (simp add: divide_len_def double_mean_def double_averageInterval_def iv del: One_nat_def)
  from assms have d2: "divide_len (foldl fl_add (Fin 0) (map (\<lambda>p. Fin (amount p)) ?s)) (length ?h)
                         = Some (double_avgAmount ?h)"
    by (auto simp: divide_len_def double_mean_def double_avgAmount_def)
  from assms have "\<not> length ?h < 2"
    by simp
  then show ?thesis
    unfolding analyzePaymentConsistency_def Let_def
    by (simp add: d1 d2 double_analysis_def within_tolerance_def list_all_iff del: One_nat_def)
qed

lemma analyze_fewer_than_two:
  "length (paymentHistory this) < 2 \<Longrightarrow>
     analyzePaymentConsistency this =
       Some (\<lparr>isConsistent = False, averageInterval = Fin 0, hasMonthlyPattern = False,
               a_paymentCount = None\<rparr>, this)"
  by (simp add: analyzePaymentConsistency_def)

text \<open>
  Claim C1, amended. For a history of at least two events the method returns a result;
  its \<open>averageInterval\<close> is the mean of the day-gaps between consecutive events of the
  history sorted by date, \<open>hasMonthlyPattern\<close> holds exactly when that value is between 25
  and 35 inclusive, and \<open>isConsistent\<close> holds exactly when every amount is within the
  tolerance of the mean amount: all of it computed in double arithmetic, each gap the rounded
  difference of two time values divided by the milliseconds of a day, each mean the sum from 0
  in date order divided by the count, the tolerance the rounded product of the mean and the
  double nearest to 0.1, every operation rounded to the nearest double. Three payments dated
  30, 60 and 90 days after some instant, with one amount that is a double and not negative,
  give \<open>hasMonthlyPattern\<close> and \<open>isConsistent\<close>; two payments of 10 and 50 give not
  \<open>isConsistent\<close>.
\<close>

theorem analyzePaymentConsistency_double:
  "(\<forall>this. 2 \<le> length (paymentHistory this) \<longrightarrow>
      (\<exists>r this'. analyzePaymentConsistency this = Some (r, this')
         \<and> averageInterval r = double_mean (double_day_gaps (sort_key date (paymentHistory this)))
         \<and> hasMonthlyPattern r = (fl_le (Fin 25) (averageInterval r) \<and> fl_le (averageInterval r) (Fin 35))
         \<and> isConsistent r =
             (\<forall>p \<in> set (paymentHistory this).
                within_tolerance
                  (double_mean (map (\<lambda>p. Fin (amount p)) (sort_key date (paymentHistory this))))
                  (amount p))))
   \<and> (\<forall>this p1 p2 p3 t a.
        paymentHistory this = [p1, p2, p3]
        \<and> date p1 = t + 30 * msPerDay \<and> date p2 = t + 60 * msPerDay \<and> date p3 = t + 90 * msPerDay
        \<and> amount p1 = a \<and> amount p2 = a \<and> amount p3 = a
        \<and> 0 \<le> a \<and> round_double a = Fin a \<longrightarrow>
        (\<exists>r this'. analyzePaymentConsistency this = Some (r, this')
           \<and> hasMonthlyPattern r \<and> isConsistent r))
   \<and> (\<forall>this p q.
        paymentHistory this = [p, q] \<and> amount p = 10 \<and> amount q = 50 \<longrightarrow>
        (\<exists>r this'. analyzePaymentConsistency this = Some (r, this') \<and> \<not> isConsistent r))"
proof (intro conjI allI impI)
  fix this :: subscription
  assume "2 \<le> length (paymentHistory this)"
  then show "\<exists>r this'. analyzePaymentConsistency this = Some (r, this')
         \<and> averageInterval r = double_mean (double_day_gaps (sort_key date (paymentHistory this)))
         \<and> hasMonthlyPattern r = (fl_le (Fin 25) (averageInterval r) \<and> fl_le (averageInterval r) (Fin 35))
         \<and> isConsistent r =
             (\<forall>p \<in> set (paymentHistory this).
                within_tolerance
                  (double_mean (map (\<lambda>p. Fin (amount p)) (sort_key date (paymentHistory this))))
                  (amount p))"
    by (simp add: analyze_two_or_more double_analysis_def double_averageInterval_def
        double_avgAmount_def)
next
  fix this :: subscription and p1 p2 p3 :: payment and t :: int and a :: rat
  assume h: "paymentHistory this = [p1, p2, p3]
        \<and> date p1 = t + 30 * msPerDay \<and> date p2 = t + 60 * msPerDay \<and> date p3 = t + 90 * msPerDay
        \<and> amount p1 = a \<and> amount p2 = a \<and> amount p3 = a
        \<and> 0 \<le> a \<and> round_double a = Fin a"
  then have i: "double_averageInterval [p1, p2, p3] = Fin 30"
    by (intro double_averageInterval_monthly [of _ t]) simp_all
  from h have "double_avgAmount [p1, p2, p3] = double_mean [Fin a, Fin a, Fin a]"
    by (intro double_avgAmount_equal) (simp_all add: msPerDay_def)
  moreover from h have "within_tolerance (double_mean [Fin a, Fin a, Fin a]) a"
    by (intro equal_amounts_within_tolerance) simp_all
  ultimately have c: "within_tolerance (double_avgAmount [p1, p2, p3]) a"
    by simp
  from h have "2 \<le> length (paymentHistory this)"
    by simp
  from analyze_two_or_more [OF this] h i c
  show "\<exists>r this'. analyzePaymentConsistency this = Some (r, this')
           \<and> hasMonthlyPattern r \<and> isConsistent r"
    by (simp add: double_analysis_def)
next
  fix this :: subscription and p q :: payment
  assume h: "paymentHistory this = [p, q] \<and> amount p = 10 \<and> amount q = 50"
  then have "2 \<le> length (paymentHistory this)"
    by simp
  from analyze_two_or_more [OF this] h ten_and_fifty(1) [of p q]
  show "\<exists>r this'. analyzePaymentConsistency this = Some (r, this') \<and> \<not> isConsistent r"
    by (simp add: double_analysis_def)
qed

theorem analyzePaymentConsistency_double_witness:
  "2 \<le> length (paymentHistory (exampleSubscription
       [examplePayment (30 * msPerDay) 12, examplePayment (60 * msPerDay) 12,
        examplePayment (90 * msPerDay) 12]))
   \<and> round_double 12 = Fin 12
   \<and> (\<exists>r this'. analyzePaymentConsistency (exampleSubscription
          [examplePayment (30 * msPerDay) 12, examplePayment (60 * msPerDay) 12,
           examplePayment (90 * msPerDay) 12]) = Some (r, this')
        \<and> averageInterval r = Fin 30 \<and> hasMonthlyPattern r \<and> isConsistent r)
   \<and> (\<exists>r this'. analyzePaymentConsistency (exampleSubscription
          [examplePayment (30 * msPerDay) 10, examplePayment (60 * msPerDay) 50]) = Some (r, this')
        \<and> \<not> isConsistent r)"
proof -
  let ?ps = "[examplePayment (30 * msPerDay) 12, examplePayment (60 * msPerDay) 12,
              examplePayment (90 * msPerDay) 12]"
  let ?qs = "[examplePayment (30 * msPerDay) 10, examplePayment (60 * msPerDay) 50]"
  note ex = exampleSubscription_def examplePayment_def examplePaymentData_def paymentEntry_def
  have len: "2 \<le> length (paymentHistory (exampleSubscription ?ps))"
    by (simp add: exampleSubscription_def)
  have dbl: "round_double 12 = Fin 12"
    by simp
  have "paymentHistory (exampleSubscription ?ps) = ?ps
          \<and> date (examplePayment (30 * msPerDay) 12) = 0 + 30 * msPerDay
          \<and> date (examplePayment (60 * msPerDay) 12) = 0 + 60 * msPerDay
          \<and> date (examplePayment (90 * msPerDay) 12) = 0 + 90 * msPerDay
          \<and> amount (examplePayment (30 * msPerDay) 12) = 12
          \<and> amount (examplePayment (60 * msPerDay) 12) = 12
          \<and> amount (examplePayment (90 * msPerDay) 12) = 12
          \<and> (0::rat) \<le> 12 \<and> round_double 12 = Fin 12"
    by (simp add: ex)
  with analyzePaymentConsistency_double
  have both: "\<exists>r this'. analyzePaymentConsistency (exampleSubscription ?ps) = Some (r, this')
        \<and> hasMonthlyPattern r \<and> isConsistent r"
    by blast
  from analyzePaymentConsistency_double len
  have "\<exists>r this'. analyzePaymentConsistency (exampleSubscription ?ps) = Some (r, this')
         \<and> averageInterval r
              = double_mean (double_day_gaps (sort_key date (paymentHistory (exampleSubscription ?ps))))"
    by blast
  moreover have "double_mean (double_day_gaps (sort_key date (paymentHistory (exampleSubscription ?ps))))
                   = Fin 30"
    using double_averageInterval_monthly [of "examplePayment (30 * msPerDay) 12" 0
        "examplePayment (60 * msPerDay) 12" "examplePayment (90 * msPerDay) 12"]
    by (simp add: ex double_averageInterval_def)
  ultimately have first: "\<exists>r this'. analyzePaymentConsistency (exampleSubscription ?ps) = Some (r, this')
        \<and> averageInterval r = Fin 30 \<and> hasMonthlyPattern r \<and> isConsistent r"
    using both by auto
  have "paymentHistory (exampleSubscription ?qs) = ?qs
          \<and> amount (examplePayment (30 * msPerDay) 10) = 10
          \<and> amount (examplePayment (60 * msPerDay) 50) = 50"
    by (simp add: ex)
  with analyzePaymentConsistency_double
  have second: "\<exists>r this'. analyzePaymentConsistency (exampleSubscription ?qs) = Some (r, this')
        \<and> \<not> isConsistent r"
    by blast
  from len dbl first second show ?thesis
    by blast
qed


text \<open>
  Claim C1 as stated, with the mean and the tolerance of exact arithmetic, fails on the code.
  Amounts 3, 3.5 and 3.5 are all within a tenth of their exact mean 10/3 (3 is exactly a
  tenth away), but the computed mean is above 10/3 and the computed tolerance below the
  computed difference, so \<open>isConsistent\<close> is false. Gaps of 600, 1319 and 601 hours have the
  exact mean 35 days, but the computed mean is above 35, so \<open>hasMonthlyPattern\<close> is false.
  Three equal amounts of -5 have a negative tolerance, so \<open>isConsistent\<close> is false.
\<close>

theorem analyzePaymentConsistency_exact_counterexample:
  "(\<exists>r this'. analyzePaymentConsistency (exampleSubscription
        [examplePayment (30 * msPerDay) 3, examplePayment (60 * msPerDay) (7 / 2),
         examplePayment (90 * msPerDay) (7 / 2)]) = Some (r, this')
      \<and> \<not> isConsistent r
      \<and> spec_isConsistent
          [examplePayment (30 * msPerDay) 3, examplePayment (60 * msPerDay) (7 / 2),
           examplePayment (90 * msPerDay) (7 / 2)])
   \<and> (\<exists>r this'. analyzePaymentConsistency (exampleSubscription
        [examplePayment 0 10, examplePayment 2160000000 10, examplePayment 6908400000 10,
         examplePayment 9072000000 10]) = Some (r, this')
      \<and> \<not> hasMonthlyPattern r
      \<and> averageInterval r = Fin (4925812092436481 / 140737488355328)
      \<and> spec_averageInterval
          [examplePayment 0 10, examplePayment 2160000000 10, examplePayment 6908400000 10,
           examplePayment 9072000000 10] = 35
      \<and> spec_hasMonthlyPattern
          [examplePayment 0 10, examplePayment 2160000000 10, examplePayment 6908400000 10,
           examplePayment 9072000000 10])
   \<and> (\<exists>r this'. analyzePaymentConsistency (exampleSubscription
        [examplePayment (30 * msPerDay) (- 5), examplePayment (60 * msPerDay) (- 5),
         examplePayment (90 * msPerDay) (- 5)]) = Some (r, this')
      \<and> \<not> isConsistent r)"
proof (intro conjI)
  note ex = exampleSubscription_def examplePayment_def examplePaymentData_def paymentEntry_def
  let ?h1 = "[examplePayment (30 * msPerDay) 3, examplePayment (60 * msPerDay) (7 / 2),
              examplePayment (90 * msPerDay) (7 / 2)]"
  have s1: "sort_key date ?h1 = ?h1"
    by (intro sort_key_date_three) (simp_all add: ex msPerDay_def)
  have "double_avgAmount ?h1 = double_mean [Fin 3, Fin (7 / 2), Fin (7 / 2)]"
    unfolding double_avgAmount_def s1 by (simp add: ex)
  with three_and_two_halves have "\<not> within_tolerance (double_avgAmount ?h1) 3"
    by simp
  then have c1: "\<not> isConsistent (double_analysis ?h1)"
    by (simp add: double_analysis_def ex)
  have e1: "spec_isConsistent ?h1"
    by (simp add: spec_isConsistent_def spec_mean_def ex)
  have "2 \<le> length (paymentHistory (exampleSubscription ?h1))"
    by (simp add: exampleSubscription_def)
  from analyze_two_or_more [OF this] c1 e1
  show "\<exists>r this'. analyzePaymentConsistency (exampleSubscription ?h1) = Some (r, this')
      \<and> \<not> isConsistent r \<and> spec_isConsistent ?h1"
    by (simp add: exampleSubscription_def)
next
  note ex = exampleSubscription_def examplePayment_def examplePaymentData_def paymentEntry_def
  let ?h3 = "[examplePayment 0 10, examplePayment 2160000000 10, examplePayment 6908400000 10,
              examplePayment 9072000000 10]"
  have s3: "sort_key date ?h3 = ?h3"
    by (intro sort_key_id_if_sorted) (simp add: ex)
  have "double_day_gaps ?h3 = [Fin 25, Fin (7734697797528235 / 140737488355328),
                               Fin (7048602541796011 / 281474976710656)]"
    by (simp add: double_day_gaps_def timeValue_def fl_sub_def msPerDay_def ex
        ce3_gap1 ce3_gap2 ce3_gap3 del: fl_div.simps)
  then have a3: "double_averageInterval ?h3 = Fin (4925812092436481 / 140737488355328)"
    unfolding double_averageInterval_def s3 by (simp only: hour_gaps)
  then have m3: "\<not> hasMonthlyPattern (double_analysis ?h3)"
    and v3: "averageInterval (double_analysis ?h3) = Fin (4925812092436481 / 140737488355328)"
    by (simp_all add: double_analysis_def)
  have e3: "spec_averageInterval ?h3 = 35"
    unfolding spec_averageInterval_def s3
    by (simp add: spec_mean_def spec_day_gaps_def msPerDay_def ex)
  then have p3: "spec_hasMonthlyPattern ?h3"
    by (simp add: spec_hasMonthlyPattern_def)
  have "2 \<le> length (paymentHistory (exampleSubscription ?h3))"
    by (simp add: exampleSubscription_def)
  from analyze_two_or_more [OF this] m3 v3 e3 p3
  show "\<exists>r this'. analyzePaymentConsistency (exampleSubscription ?h3) = Some (r, this')
      \<and> \<not> hasMonthlyPattern r
      \<and> averageInterval r = Fin (4925812092436481 / 140737488355328)
      \<and> spec_averageInterval ?h3 = 35 \<and> spec_hasMonthlyPattern ?h3"
    by (simp add: exampleSubscription_def)
next
  note ex = exampleSubscription_def examplePayment_def examplePaymentData_def paymentEntry_def
  let ?h2 = "[examplePayment (30 * msPerDay) (- 5), examplePayment (60 * msPerDay) (- 5),
              examplePayment (90 * msPerDay) (- 5)]"
  have s2: "sort_key date ?h2 = ?h2"
    by (intro sort_key_date_three) (simp_all add: ex msPerDay_def)
  have "double_avgAmount ?h2 = double_mean [Fin (- 5), Fin (- 5), Fin (- 5)]"
    unfolding double_avgAmount_def s2 by (simp add: ex)
  with three_negative have "\<not> within_tolerance (double_avgAmount ?h2) (- 5)"
    by simp
  then have c2: "\<not> isConsistent (double_analysis ?h2)"
    by (simp add: double_analysis_def ex)
  have "2 \<le> length (paymentHistory (exampleSubscription ?h2))"
    by (simp add: exampleSubscription_def)
  from analyze_two_or_more [OF this] c2
  show "\<exists>r this'. analyzePaymentConsistency (exampleSubscription ?h2) = Some (r, this')
      \<and> \<not> isConsistent r"
    by (simp add: exampleSubscription_def)
qed

text \<open>
  Claim C8. With fewer than two events the method returns exactly
  \<^verbatim>\<open>{isConsistent: false, averageInterval: 0, hasMonthlyPattern: false}\<close> and leaves the
  record as it is. Where the two averages are computed there are at least two payments, so
  the divisors, the number of intervals and the number of amounts, are at least 1 and 2; the
  method never divides by zero (its result is never \<open>None\<close>).
\<close>

theorem analyzePaymentConsistency_guard:
  "(length (paymentHistory this) < 2 \<longrightarrow>
      analyzePaymentConsistency this =
        Some (\<lparr>isConsistent = False, averageInterval = Fin 0, hasMonthlyPattern = False,
                a_paymentCount = None\<rparr>, this))
   \<and> (2 \<le> length (paymentHistory this) \<longrightarrow>
        1 \<le> length (intervals_loop (sort_key date (paymentHistory this)) 1 [])
        \<and> 2 \<le> length (map amount (sort_key date (paymentHistory this))))
   \<and> analyzePaymentConsistency this \<noteq> None"
proof (intro conjI impI)
  assume "length (paymentHistory this) < 2"
  then show "analyzePaymentConsistency this =
        Some (\<lparr>isConsistent = False, averageInterval = Fin 0, hasMonthlyPattern = False,
                a_paymentCount = None\<rparr>, this)"
    by (rule analyze_fewer_than_two)
next
  assume "2 \<le> length (paymentHistory this)"
  then show "1 \<le> length (intervals_loop (sort_key date (paymentHistory this)) 1 [])"
    by (simp only: intervals_loop_gaps length_double_day_gaps length_sort)
next
  assume "2 \<le> length (paymentHistory this)"
  then show "2 \<le> length (map amount (sort_key date (paymentHistory this)))"
    by simp
next
  show "analyzePaymentConsistency this \<noteq> None"
  proof (cases "length (paymentHistory this) < 2")
    case True
    then show ?thesis
      by (simp add: analyze_fewer_than_two)
  next
    case False
    then have "2 \<le> length (paymentHistory this)"
      by simp
    then show ?thesis
      by (simp add: analyze_two_or_more)
  qed
qed

theorem analyzePaymentConsistency_guard_witness:
  "length (paymentHistory (exampleSubscription [examplePayment 0 5])) < 2
   \<and> analyzePaymentConsistency (exampleSubscription [examplePayment 0 5]) =
        Some (\<lparr>isConsistent = False, averageInterval = Fin 0, hasMonthlyPattern = False,
                a_paymentCount = None\<rparr>, exampleSubscription [examplePayment 0 5])
   \<and> 2 \<le> length (paymentHistory (exampleSubscription [examplePayment 0 5, examplePayment 7 5]))
   \<and> 1 \<le> length (intervals_loop (sort_key date (paymentHistory
              (exampleSubscription [examplePayment 0 5, examplePayment 7 5]))) 1 [])"
proof -
  have one: "length (paymentHistory (exampleSubscription [examplePayment 0 5])) < 2"
    by (simp add: exampleSubscription_def)
  have two: "2 \<le> length (paymentHistory (exampleSubscription [examplePayment 0 5, examplePayment 7 5]))"
    by (simp add: exampleSubscription_def)
  from one two
    analyzePaymentConsistency_guard [of "exampleSubscription [examplePayment 0 5]"]
    analyzePaymentConsistency_guard [of "exampleSubscription [examplePayment 0 5, examplePayment 7 5]"]
  show ?thesis
    by blast
qed

subsection \<open>The analysis sorts the stored history\<close>

text \<open>What the method leaves of the record: every field but the history, which it sorts.\<close>

lemma analyze_frame:
  "\<exists>r. analyzePaymentConsistency this =
          Some (r, this\<lparr>paymentHistory := (if length (paymentHistory this) < 2
                                             then paymentHistory this
                                             else sort_key date (paymentHistory this))\<rparr>)"
  by (cases "length (paymentHistory this) < 2")
     (simp_all add: analyze_fewer_than_two analyze_two_or_more)

text \<open>
  Claim C4 says that the method leaves \<open>paymentHistory\<close> element for element in the same
  order. The code sorts the array itself: for a history recorded as day 2, day 1 the record
  afterwards holds day 1, day 2.
\<close>

theorem analyzePaymentConsistency_sorts_in_place:
  "\<exists>r this'.
      analyzePaymentConsistency
        (exampleSubscription [examplePayment (2 * msPerDay) 10, examplePayment msPerDay 10])
        = Some (r, this')
      \<and> paymentHistory this' = [examplePayment msPerDay 10, examplePayment (2 * msPerDay) 10]
      \<and> paymentHistory this' \<noteq>
          paymentHistory (exampleSubscription
            [examplePayment (2 * msPerDay) 10, examplePayment msPerDay 10])"
proof -
  let ?this = "exampleSubscription [examplePayment (2 * msPerDay) 10, examplePayment msPerDay 10]"
  have "2 \<le> length (paymentHistory ?this)"
    by (simp add: exampleSubscription_def)
  from analyze_two_or_more [OF this]
  show ?thesis
    by (simp add: exampleSubscription_def examplePayment_def examplePaymentData_def paymentEntry_def msPerDay_def)
qed

section \<open>Properties of isLikelyValid\<close>

lemma msPerDay_pos: "0 < msPerDay"
  by (simp add: msPerDay_def)

lemma truncate_days_le:
  assumes "0 \<le> k"
  shows "(truncate_toward_zero (of_int a / of_int msPerDay) \<le> k) = (a div msPerDay \<le> k)"
proof (cases "a < 0")
  case True
  with msPerDay_pos have neg: "(of_int a :: rat) / of_int msPerDay < 0"
    by (simp add: divide_neg_pos)
  then have "\<lceil>(of_int a :: rat) / of_int msPerDay\<rceil> \<le> 0"
    by (simp only: ceiling_le_zero less_imp_le)
  moreover from neg have "truncate_toward_zero (of_int a / of_int msPerDay)
                            = \<lceil>(of_int a :: rat) / of_int msPerDay\<rceil>"
    by (simp only: truncate_toward_zero_def if_True)
  moreover from True msPerDay_pos have "a div msPerDay < 0"
    by (simp only: div_neg_pos_less0)
  ultimately show ?thesis
    using assms by linarith
next
  case False
  with msPerDay_pos have "\<not> (of_int a :: rat) / of_int msPerDay < 0"
    by (simp add: zero_le_divide_iff not_less)
  then have "truncate_toward_zero (of_int a / of_int msPerDay)
               = \<lfloor>(of_int a :: rat) / of_int msPerDay\<rfloor>"
    by (simp only: truncate_toward_zero_def if_False)
  then show ?thesis
    by (simp only: floor_divide_of_int_eq)
qed

lemma spec_days_le:
  assumes "0 \<le> k"
  shows "(spec_daysSinceLastPayment now this \<le> k) = (daysSinceLastPayment now this \<le> k)"
proof (cases "lastPaymentDate this")
  case None
  then show ?thesis
    by (simp add: spec_daysSinceLastPayment_def daysSinceLastPayment_def)
next
  case (Some l)
  have "(1000 * 60 * 60 * 24 :: int) = msPerDay"
    by (simp add: msPerDay_def)
  with Some truncate_days_le [OF assms, of "now - l"] show ?thesis
    by (simp only: spec_daysSinceLastPayment_def daysSinceLastPayment_def option.case)
qed

text \<open>The two day counts differ for a last payment in the future: one millisecond ahead is day -1 rounded down, day 0 truncated.\<close>

lemma daysSinceLastPayment_future:
  "daysSinceLastPayment 0 ((exampleSubscription [])\<lparr>lastPaymentDate := Some 1\<rparr>) = - 1
   \<and> spec_daysSinceLastPayment 0 ((exampleSubscription [])\<lparr>lastPaymentDate := Some 1\<rparr>) = 0"
  by (simp add: daysSinceLastPayment_def spec_daysSinceLastPayment_def truncate_toward_zero_def
      msPerDay_def ceiling_eq_iff)

text \<open>
  Claim C2. \<open>isLikelyValid\<close> returns what the five rules of the specification give, the
  first match winning, when the day count is the quotient truncated toward zero and a record
  with no payment counts as 999 days. (The code rounds down; the two counts differ only when
  the last payment lies in the future, where both are at most 0 and no rule tells them apart.)
\<close>

theorem isLikelyValid_spec: "isLikelyValid now this = spec_isLikelyValid now this"
proof -
  let ?d = "daysSinceLastPayment now this" and ?e = "spec_daysSinceLastPayment now this"
  have "(?e \<le> 180) = (?d \<le> 180)" and "(?e \<le> 90) = (?d \<le> 90)"
    and "(?e \<le> 60) = (?d \<le> 60)" and "(?e \<le> 30) = (?d \<le> 30)"
    by (simp_all add: spec_days_le)
  then show ?thesis
    by (simp add: isLikelyValid_def spec_isLikelyValid_def Let_def not_le [symmetric])
qed

section \<open>Properties of cancelSubscription\<close>

text \<open>
  Claim C9. \<open>cancelSubscription\<close> sets \<open>isActive\<close> to false, \<open>cancellationDate\<close> to the
  current time and \<open>cancellationReason\<close> to the reason, or to \<^verbatim>\<open>User cancelled\<close> when none
  is supplied; it leaves \<open>paymentHistory\<close>, \<open>paymentCount\<close> and every other field as they
  were (setting the three fields back gives the record before the call); and the pre-save
  hook, run on the result at any time and with any flags, leaves \<open>nextRenewal\<close> null.
\<close>

theorem cancelSubscription_effect:
  "isActive (cancelSubscription now reason this) = False
   \<and> cancellationDate (cancelSubscription now reason this) = Some now
   \<and> cancellationReason (cancelSubscription now reason this)
       = (case reason of None \<Rightarrow> ''User cancelled'' | Some r \<Rightarrow> r)
   \<and> paymentHistory (cancelSubscription now reason this) = paymentHistory this
   \<and> paymentCount (cancelSubscription now reason this) = paymentCount this
   \<and> (cancelSubscription now reason this)
        \<lparr>isActive := isActive this, cancellationDate := cancellationDate this,
         cancellationReason := cancellationReason this\<rparr> = this
   \<and> nextRenewal (preSave now' modifiedRenewalDay isNew (cancelSubscription now reason this)) = None"
  by (simp add: cancelSubscription_def preSave_def Let_def)

section \<open>Properties of addPayment\<close>

lemma addPayment_first:
  assumes "paymentHistory this = []"
  shows "addPayment now pd this =
           Some (this\<lparr>paymentHistory := [paymentEntry now pd],
                      lastPaymentDate := Some (case pd_date pd of Some d \<Rightarrow> d | None \<Rightarrow> now),
                      paymentCount := 1\<rparr>)"
  using assms by (simp add: addPayment_def Let_def)

lemma addPayment_later:
  assumes "paymentHistory this \<noteq> []"
  shows "addPayment now pd this =
           Some (this\<lparr>paymentHistory := sort_key date (paymentHistory this @ [paymentEntry now pd]),
                      lastPaymentDate := Some (case pd_date pd of Some d \<Rightarrow> d | None \<Rightarrow> now),
                      paymentCount := int (length (paymentHistory this)) + 1,
                      isRecurring := True,
                      hasConsistentRenewalDate :=
                        hasMonthlyPattern (double_analysis (paymentHistory this @ [paymentEntry now pd])),
                      hasPaymentHistory := True,
                      confidenceScore :=
                        (if isConsistent (double_analysis (paymentHistory this @ [paymentEntry now pd]))
                            \<and> hasMonthlyPattern (double_analysis (paymentHistory this @ [paymentEntry now pd]))
                         then max (confidenceScore this) 8
                         else confidenceScore this)\<rparr>)"
proof -
  let ?this3 = "this\<lparr>paymentHistory := paymentHistory this @ [paymentEntry now pd],
                     lastPaymentDate := Some (case pd_date pd of Some d \<Rightarrow> d | None \<Rightarrow> now),
                     paymentCount := int (length (paymentHistory this @ [paymentEntry now pd]))\<rparr>"
  from assms have "2 \<le> length (paymentHistory ?this3)"
    by (cases "paymentHistory this") simp_all
  from analyze_two_or_more [OF this]
  have a: "analyzePaymentConsistency ?this3 =
             Some (double_analysis (paymentHistory this @ [paymentEntry now pd]),
                   ?this3\<lparr>paymentHistory := sort_key date (paymentHistory this @ [paymentEntry now pd])\<rparr>)"
    by simp
  from assms have "1 < paymentCount ?this3"
    by (cases "paymentHistory this") simp_all
  with a show ?thesis
    by (simp add: addPayment_def Let_def)
qed


text \<open>What holds of the history, whatever the order of the dates.\<close>

lemma addPayment_history:
  "\<exists>this'. addPayment now pd this = Some this'
      \<and> length (paymentHistory this') = length (paymentHistory this) + 1
      \<and> mset (paymentHistory this') = mset (paymentHistory this) + {#paymentEntry now pd#}
      \<and> paymentCount this' = int (length (paymentHistory this'))"
  by (cases "paymentHistory this = []") (simp_all add: addPayment_first addPayment_later)

lemma addPayment_in_date_order:
  assumes "sorted (map date (paymentHistory this @ [paymentEntry now pd]))"
  shows "\<exists>this'. addPayment now pd this = Some this'
           \<and> paymentHistory this' = paymentHistory this @ [paymentEntry now pd]"
proof (cases "paymentHistory this = []")
  case True
  then show ?thesis
    by (simp add: addPayment_first)
next
  case False
  from sort_key_id_if_sorted [OF assms] False show ?thesis
    by (simp add: addPayment_later)
qed

lemma addPayment_defaults:
  "date (paymentEntry now pd) = (case pd_date pd of None \<Rightarrow> now | Some d \<Rightarrow> d)"
  "pd_currency pd = None \<Longrightarrow> pcurrency (paymentEntry now pd) = ''USD''"
  "pd_confidence pd = None \<Longrightarrow> confidence (paymentEntry now pd) = 0"
  by (simp_all add: paymentEntry_def split: option.split)

text \<open>
  Claim C5 says that the call appends exactly one event and leaves the prior elements as they
  were. The call pushes one event and, from the second payment on, runs the analysis, which
  sorts the stored array: a payment dated day 1 recorded after one dated day 2 ends up in
  front of it, so the history is not the prior history followed by the new event.
\<close>

theorem addPayment_out_of_order:
  "\<exists>this1 this2.
      addPayment 0 (examplePaymentData (2 * msPerDay) 10)
        (newSubscription ''u1'' ''Streaming'' 10 USD 31) = Some this1
      \<and> paymentHistory this1 = [examplePayment (2 * msPerDay) 10]
      \<and> addPayment 0 (examplePaymentData msPerDay 10) this1 = Some this2
      \<and> paymentHistory this2 = [examplePayment msPerDay 10, examplePayment (2 * msPerDay) 10]
      \<and> paymentHistory this2 \<noteq> paymentHistory this1 @ [paymentEntry 0 (examplePaymentData msPerDay 10)]"
proof -
  let ?new = "newSubscription ''u1'' ''Streaming'' 10 USD 31"
  let ?this1 = "?new\<lparr>paymentHistory := [examplePayment (2 * msPerDay) 10],
                      lastPaymentDate := Some (2 * msPerDay), paymentCount := 1\<rparr>"
  have 1: "addPayment 0 (examplePaymentData (2 * msPerDay) 10) ?new = Some ?this1"
    by (simp add: addPayment_first newSubscription_def examplePayment_def examplePaymentData_def)
  have "paymentHistory ?this1 \<noteq> []"
    by simp
  from addPayment_later [OF this, of 0 "examplePaymentData msPerDay 10"]
  obtain this2 where 2: "addPayment 0 (examplePaymentData msPerDay 10) ?this1 = Some this2"
    and h: "paymentHistory this2 =
              sort_key date ([examplePayment (2 * msPerDay) 10] @ [paymentEntry 0 (examplePaymentData msPerDay 10)])"
    by simp
  from h have "paymentHistory this2 = [examplePayment msPerDay 10, examplePayment (2 * msPerDay) 10]"
    by (simp add: examplePayment_def examplePaymentData_def paymentEntry_def msPerDay_def)
  moreover have "[examplePayment msPerDay 10, examplePayment (2 * msPerDay) 10]
                   \<noteq> paymentHistory ?this1 @ [paymentEntry 0 (examplePaymentData msPerDay 10)]"
    by (simp add: examplePayment_def examplePaymentData_def paymentEntry_def msPerDay_def)
  ultimately show ?thesis
    using 1 2 by (intro exI [of _ ?this1] exI [of _ this2]) simp
qed

text \<open>
  Claim C6. \<^verbatim>\<open>addPayment\<close> never lowers \<open>confidenceScore\<close>; and when it leaves
  \<open>paymentCount\<close> above 1 and the pattern analysis reports both \<open>isConsistent\<close> and
  \<open>hasMonthlyPattern\<close>, the score afterwards is at least 8.
\<close>

theorem addPayment_confidence:
  "\<exists>this'. addPayment now pd this = Some this'
      \<and> confidenceScore this \<le> confidenceScore this'
      \<and> (paymentCount this' > 1
           \<and> (\<exists>r t. analyzePaymentConsistency this' = Some (r, t)
                  \<and> isConsistent r \<and> hasMonthlyPattern r)
          \<longrightarrow> 8 \<le> confidenceScore this')"
proof (cases "paymentHistory this = []")
  case True
  then show ?thesis
    by (simp add: addPayment_first)
next
  case False
  let ?h = "paymentHistory this @ [paymentEntry now pd]"
  from addPayment_later [OF False, of now pd]
  obtain this' where s: "addPayment now pd this = Some this'"
    and h: "paymentHistory this' = sort_key date ?h"
    and c: "confidenceScore this' =
              (if isConsistent (double_analysis ?h) \<and> hasMonthlyPattern (double_analysis ?h)
               then max (confidenceScore this) 8 else confidenceScore this)"
    by simp
  from False h have "2 \<le> length (paymentHistory this')"
    by (cases "paymentHistory this") simp_all
  from analyze_two_or_more [OF this] h
  have "\<exists>t. analyzePaymentConsistency this' = Some (double_analysis ?h, t)"
    by (simp add: double_analysis_sort)
  with c have "confidenceScore this \<le> confidenceScore this'
      \<and> (paymentCount this' > 1
           \<and> (\<exists>r t. analyzePaymentConsistency this' = Some (r, t)
                  \<and> isConsistent r \<and> hasMonthlyPattern r)
          \<longrightarrow> 8 \<le> confidenceScore this')"
    by auto
  with s show ?thesis
    by blast
qed


theorem addPayment_confidence_witness:
  "\<exists>this'. addPayment 0 (examplePaymentData (90 * msPerDay) 12)
               (exampleSubscription [examplePayment (30 * msPerDay) 12,
                                     examplePayment (60 * msPerDay) 12]) = Some this'
      \<and> confidenceScore (exampleSubscription [examplePayment (30 * msPerDay) 12,
                                              examplePayment (60 * msPerDay) 12]) = 0
      \<and> paymentCount this' > 1
      \<and> (\<exists>r t. analyzePaymentConsistency this' = Some (r, t)
             \<and> isConsistent r \<and> hasMonthlyPattern r)
      \<and> 8 \<le> confidenceScore this'"
proof -
  let ?sub = "exampleSubscription [examplePayment (30 * msPerDay) 12,
                                    examplePayment (60 * msPerDay) 12]"
  let ?pd = "examplePaymentData (90 * msPerDay) 12"
  let ?h = "[examplePayment (30 * msPerDay) 12, examplePayment (60 * msPerDay) 12,
             examplePayment (90 * msPerDay) 12]"
  from addPayment_confidence [of 0 ?pd ?sub]
  obtain this' where s: "addPayment 0 ?pd ?sub = Some this'"
    and imp: "paymentCount this' > 1
           \<and> (\<exists>r t. analyzePaymentConsistency this' = Some (r, t)
                  \<and> isConsistent r \<and> hasMonthlyPattern r)
          \<longrightarrow> 8 \<le> confidenceScore this'"
    by blast
  have srt: "sort_key date ?h = ?h"
    by (intro sort_key_id_if_sorted)
       (simp add: examplePayment_def examplePaymentData_def paymentEntry_def msPerDay_def)
  have "paymentHistory ?sub \<noteq> []"
    by (simp add: exampleSubscription_def)
  from addPayment_later [OF this, of 0 ?pd] s srt
  have h: "paymentHistory this' = ?h" and n: "paymentCount this' = 3"
    by (auto simp: exampleSubscription_def examplePayment_def)
  from h have "2 \<le> length (paymentHistory this')"
    by simp
  from analyze_two_or_more [OF this] h
  have a: "\<exists>t. analyzePaymentConsistency this' = Some (double_analysis ?h, t)"
    by simp
  have "double_averageInterval ?h = Fin 30"
    using double_averageInterval_monthly [of "examplePayment (30 * msPerDay) 12" 0
        "examplePayment (60 * msPerDay) 12" "examplePayment (90 * msPerDay) 12"]
    by (simp add: examplePayment_def examplePaymentData_def paymentEntry_def)
  moreover have "double_avgAmount ?h = double_mean [Fin 12, Fin 12, Fin 12]"
    by (intro double_avgAmount_equal)
       (simp_all add: examplePayment_def examplePaymentData_def paymentEntry_def msPerDay_def)
  moreover have "within_tolerance (double_mean [Fin 12, Fin 12, Fin 12]) 12"
    by (intro equal_amounts_within_tolerance) simp_all
  ultimately have "isConsistent (double_analysis ?h) \<and> hasMonthlyPattern (double_analysis ?h)"
    by (simp add: double_analysis_def examplePayment_def examplePaymentData_def paymentEntry_def)
  with a have r: "\<exists>r t. analyzePaymentConsistency this' = Some (r, t)
             \<and> isConsistent r \<and> hasMonthlyPattern r"
    by blast
  have z: "confidenceScore ?sub = 0"
    by (simp add: exampleSubscription_def newSubscription_def)
  from n r imp have "8 \<le> confidenceScore this'"
    by simp
  with s z n r show ?thesis
    by auto
qed

text \<open>
  Claim C10. When the call supplies a date, \<open>lastPaymentDate\<close> afterwards is that date,
  whatever the record held. Recorded out of order (day 2, then day 1), \<open>lastPaymentDate\<close>
  moves back from day 2 to day 1, the date of the payment recorded last, while the latest date
  in the history is day 2.
\<close>

theorem addPayment_lastPaymentDate:
  "(pd_date pd = Some d \<longrightarrow>
      (\<exists>this'. addPayment now pd this = Some this' \<and> lastPaymentDate this' = Some d))
   \<and> (\<exists>this1 this2.
        addPayment 0 (examplePaymentData (2 * msPerDay) 10)
          (newSubscription ''u1'' ''Streaming'' 10 USD 31) = Some this1
        \<and> addPayment 0 (examplePaymentData msPerDay 10) this1 = Some this2
        \<and> lastPaymentDate this1 = Some (2 * msPerDay)
        \<and> lastPaymentDate this2 = Some msPerDay
        \<and> msPerDay < 2 * msPerDay
        \<and> Max (date ` set (paymentHistory this2)) = 2 * msPerDay)"
proof (intro conjI impI)
  assume "pd_date pd = Some d"
  then show "\<exists>this'. addPayment now pd this = Some this' \<and> lastPaymentDate this' = Some d"
    by (cases "paymentHistory this = []") (simp_all add: addPayment_first addPayment_later)
next
  let ?new = "newSubscription ''u1'' ''Streaming'' 10 USD 31"
  let ?this1 = "?new\<lparr>paymentHistory := [examplePayment (2 * msPerDay) 10],
                      lastPaymentDate := Some (2 * msPerDay), paymentCount := 1\<rparr>"
  have 1: "addPayment 0 (examplePaymentData (2 * msPerDay) 10) ?new = Some ?this1"
    by (simp add: addPayment_first newSubscription_def examplePayment_def examplePaymentData_def)
  have "paymentHistory ?this1 \<noteq> []"
    by simp
  from addPayment_later [OF this, of 0 "examplePaymentData msPerDay 10"]
  obtain this2 where 2: "addPayment 0 (examplePaymentData msPerDay 10) ?this1 = Some this2"
    and l: "lastPaymentDate this2 = Some msPerDay"
    and h: "paymentHistory this2 =
              sort_key date ([examplePayment (2 * msPerDay) 10] @ [paymentEntry 0 (examplePaymentData msPerDay 10)])"
    by (simp add: examplePaymentData_def)
  from h have "Max (date ` set (paymentHistory this2)) = 2 * msPerDay"
    by (simp add: examplePayment_def examplePaymentData_def paymentEntry_def msPerDay_def)
  moreover have "msPerDay < 2 * msPerDay"
    by (simp add: msPerDay_def)
  ultimately show "\<exists>this1 this2.
        addPayment 0 (examplePaymentData (2 * msPerDay) 10) ?new = Some this1
        \<and> addPayment 0 (examplePaymentData msPerDay 10) this1 = Some this2
        \<and> lastPaymentDate this1 = Some (2 * msPerDay)
        \<and> lastPaymentDate this2 = Some msPerDay
        \<and> msPerDay < 2 * msPerDay
        \<and> Max (date ` set (paymentHistory this2)) = 2 * msPerDay"
    using 1 2 l by (intro exI [of _ ?this1] exI [of _ this2]) simp
qed

theorem addPayment_lastPaymentDate_witness:
  "pd_date (examplePaymentData msPerDay 10) = Some msPerDay
   \<and> (\<exists>this'. addPayment 0 (examplePaymentData msPerDay 10)
                  (exampleSubscription [examplePayment (2 * msPerDay) 10]) = Some this'
         \<and> lastPaymentDate this' = Some msPerDay)"
proof -
  have "pd_date (examplePaymentData msPerDay 10) = Some msPerDay"
    by (simp add: examplePaymentData_def)
  with addPayment_lastPaymentDate [of "examplePaymentData msPerDay 10" msPerDay 0
      "exampleSubscription [examplePayment (2 * msPerDay) 10]"]
  show ?thesis
    by blast
qed


section \<open>Sequences of calls\<close>

lemma addPayment_recorded:
  assumes "payments_recorded n this"
  shows "\<exists>this'. addPayment now pd this = Some this' \<and> payments_recorded (Suc n) this'"
proof (cases "paymentHistory this = []")
  case True
  with assms show ?thesis
    by (simp add: addPayment_first payments_recorded_def)
next
  case False
  with assms have "1 \<le> n"
    by (cases "paymentHistory this") (auto simp: payments_recorded_def)
  with False assms show ?thesis
    by (simp add: addPayment_later payments_recorded_def)
qed

lemma exec_recorded:
  assumes "payments_recorded n this"
  shows "\<exists>this'. exec now op this = Some this'
           \<and> payments_recorded (if isAddPayment op then Suc n else n) this'"
proof (cases op)
  case (AddPayment pd)
  with addPayment_recorded [OF assms, of now pd] show ?thesis
    by simp
next
  case (CancelSubscription reason)
  with assms show ?thesis
    by (simp add: cancelSubscription_def payments_recorded_def)
next
  case AnalyzePaymentConsistency
  from analyze_frame [of this] obtain r where
    "analyzePaymentConsistency this =
       Some (r, this\<lparr>paymentHistory := (if length (paymentHistory this) < 2
                                          then paymentHistory this
                                          else sort_key date (paymentHistory this))\<rparr>)"
    by blast
  with AnalyzePaymentConsistency assms show ?thesis
    by (simp add: payments_recorded_def)
next
  case IsLikelyValid
  with assms show ?thesis
    by simp
qed

lemma run_recorded:
  "payments_recorded n this \<Longrightarrow>
     \<exists>this'. run ops this = Some this' \<and> payments_recorded (n + addPaymentCalls ops) this'"
proof (induction ops arbitrary: n this)
  case Nil
  then show ?case
    by (simp add: addPaymentCalls_def)
next
  case (Cons call ops)
  obtain now op where call: "call = (now, op)"
    by (cases call)
  from exec_recorded [OF Cons.prems, of now op]
  obtain this1 where e: "exec now op this = Some this1"
    and r: "payments_recorded (if isAddPayment op then Suc n else n) this1"
    by blast
  from Cons.IH [OF r] e call show ?case
    by (auto simp: addPaymentCalls_def)
qed

lemma fresh_recorded: "fresh this \<Longrightarrow> payments_recorded 0 this"
  by (simp add: fresh_def payments_recorded_def)

lemma addPaymentCalls_append: "addPaymentCalls (ops @ later) = addPaymentCalls ops + addPaymentCalls later"
  by (simp add: addPaymentCalls_def)

text \<open>
  Claim C7. From a new record (no payment, \<open>paymentCount\<close> 0, \<open>isRecurring\<close> false) every
  sequence of calls of \<^verbatim>\<open>addPayment\<close>, \<^verbatim>\<open>cancelSubscription\<close>,
  \<^verbatim>\<open>analyzePaymentConsistency\<close> and \<^verbatim>\<open>isLikelyValid\<close> runs to a state in which
  \<open>isRecurring\<close> holds exactly when the sequence has at least two \<^verbatim>\<open>addPayment\<close> calls:
  it becomes true at the second one. Once true it is true after every longer sequence, and
  where it is true \<open>paymentCount\<close> is above 1.
\<close>

theorem isRecurring_from_second_payment:
  assumes "fresh this"
  shows "\<exists>this'. run ops this = Some this'
           \<and> isRecurring this' = (2 \<le> addPaymentCalls ops)
           \<and> (isRecurring this' \<longrightarrow> paymentCount this' > 1)
           \<and> (isRecurring this' \<longrightarrow>
                (\<forall>later. \<exists>this''. run (ops @ later) this = Some this'' \<and> isRecurring this''))"
proof -
  from run_recorded [OF fresh_recorded [OF assms], of ops]
  obtain this' where r: "run ops this = Some this'"
    and p: "payments_recorded (addPaymentCalls ops) this'"
    by auto
  have "\<exists>this''. run (ops @ later) this = Some this'' \<and> isRecurring this''"
    if "isRecurring this'" for later
  proof -
    from that p have "2 \<le> addPaymentCalls (ops @ later)"
      by (simp add: payments_recorded_def addPaymentCalls_append)
    with run_recorded [OF fresh_recorded [OF assms], of "ops @ later"] show ?thesis
      by (auto simp: payments_recorded_def)
  qed
  with r p show ?thesis
    by (auto simp: payments_recorded_def)
qed

theorem isRecurring_from_second_payment_witness:
  "fresh (newSubscription ''u1'' ''Streaming'' 10 USD 31)
   \<and> (\<exists>this'. run [(0, AddPayment (examplePaymentData 0 10))]
                 (newSubscription ''u1'' ''Streaming'' 10 USD 31) = Some this'
         \<and> \<not> isRecurring this')
   \<and> (\<exists>this'. run [(0, AddPayment (examplePaymentData 0 10)),
                   (1, AddPayment (examplePaymentData msPerDay 10)),
                   (2, CancelSubscription None), (3, AnalyzePaymentConsistency),
                   (4, IsLikelyValid)]
                 (newSubscription ''u1'' ''Streaming'' 10 USD 31) = Some this'
         \<and> isRecurring this' \<and> paymentCount this' > 1)"
proof -
  let ?new = "newSubscription ''u1'' ''Streaming'' 10 USD 31"
  let ?one = "[(0, AddPayment (examplePaymentData 0 10))]"
  let ?five = "[(0, AddPayment (examplePaymentData 0 10)),
                (1, AddPayment (examplePaymentData msPerDay 10)),
                (2, CancelSubscription None), (3, AnalyzePaymentConsistency),
                (4, IsLikelyValid)]"
  have f: "fresh ?new"
    by (simp add: fresh_def newSubscription_def)
  have "addPaymentCalls ?one = 1" and "addPaymentCalls ?five = 2"
    by (simp_all add: addPaymentCalls_def)
  with isRecurring_from_second_payment [OF f, of ?one]
       isRecurring_from_second_payment [OF f, of ?five] f
  show ?thesis
    by auto
qed

section \<open>Properties of calculateNextRenewal\<close>

text \<open>
  The calendar model has no time zone: a local date is its calendar fields, and daylight
  saving transitions are not modelled.
\<close>

lemma daysInMonth_bounds: "28 \<le> daysInMonth y m" "daysInMonth y m \<le> 31"
  by (simp_all add: daysInMonth_def)

lemma carryDay_in_month:
  "1 \<le> d \<Longrightarrow> d \<le> daysInMonth y m \<Longrightarrow> carryDay y m d = (y, m, d)"
  by (subst carryDay.simps) simp

lemma carryDay_next_month:
  assumes "daysInMonth y m < d" and "d \<le> 31"
  shows "carryDay y m d = (fst (nextMonth y m), snd (nextMonth y m), d - daysInMonth y m)"
proof -
  obtain y' m' where n: "nextMonth y m = (y', m')"
    by (cases "nextMonth y m")
  from assms daysInMonth_bounds [of y m] daysInMonth_bounds [of y' m']
  have "1 \<le> d - daysInMonth y m" and "d - daysInMonth y m \<le> daysInMonth y' m'"
    by linarith+
  then have "carryDay y' m' (d - daysInMonth y m) = (y', m', d - daysInMonth y m)"
    by (rule carryDay_in_month)
  moreover from assms daysInMonth_bounds [of y m] have "\<not> d < 1"
    by linarith
  ultimately show ?thesis
    using assms n by (subst carryDay.simps) simp
qed

lemma carryDay_day_zero:
  "carryDay y m 0 = (fst (prevMonth y m), snd (prevMonth y m),
                     daysInMonth (fst (prevMonth y m)) (snd (prevMonth y m)))"
proof -
  obtain y' m' where p: "prevMonth y m = (y', m')"
    by (cases "prevMonth y m")
  from daysInMonth_bounds [of y' m']
  have "carryDay y' m' (daysInMonth y' m') = (y', m', daysInMonth y' m')"
    by (intro carryDay_in_month) linarith+
  with p show ?thesis
    by (subst carryDay.simps) simp
qed

lemma prevMonth_nextMonth:
  "0 \<le> m \<Longrightarrow> m \<le> 11 \<Longrightarrow>
     prevMonth (fst (nextMonth y m)) (snd (nextMonth y m)) = (y, m)"
  by (auto simp: prevMonth_def nextMonth_def)

lemma makeDate_next: 
  "0 \<le> m \<Longrightarrow> m \<le> 11 \<Longrightarrow>
     makeDate y (m + 1) d t =
       (case carryDay (fst (nextMonth y m)) (snd (nextMonth y m)) d of
          (y', m', d') \<Rightarrow> \<lparr>year = y', month = m', day = d', tod = t\<rparr>)"
proof (cases "m = 11")
  case True
  then show ?thesis by (simp add: makeDate_def nextMonth_def)
next
  case False
  assume "0 \<le> m" "m \<le> 11"
  with False have "(m + 1) div 12 = 0" "(m + 1) mod 12 = m + 1"
    by simp_all
  with False show ?thesis by (simp add: makeDate_def nextMonth_def)
qed

lemma makeDate_same:
  "0 \<le> m \<Longrightarrow> m \<le> 11 \<Longrightarrow>
     makeDate y m d t =
       (case carryDay y m d of (y', m', d') \<Rightarrow> \<lparr>year = y', month = m', day = d', tod = t\<rparr>)"
  by (simp add: makeDate_def)

lemma nextMonth_range:
  "0 \<le> m \<Longrightarrow> m \<le> 11 \<Longrightarrow> 0 \<le> snd (nextMonth y m) \<and> snd (nextMonth y m) \<le> 11"
  by (simp add: nextMonth_def)

lemma nextMonth_later:
  "0 \<le> m \<Longrightarrow> m \<le> 11 \<Longrightarrow>
     y < fst (nextMonth y m) \<or> (y = fst (nextMonth y m) \<and> m < snd (nextMonth y m))"
  by (simp add: nextMonth_def)


lemma date_le_midnight:
  assumes "0 \<le> tod now"
  shows "date_le \<lparr>year = year now, month = month now, day = d, tod = 0\<rparr> now = (d \<le> day now)"
proof -
  have "(\<lparr>year = year now, month = month now, day = d, tod = 0\<rparr> = now) = (d = day now \<and> tod now = 0)"
    by (cases now) auto
  with assms show ?thesis
    by (auto simp: date_le_def date_less_def)
qed

lemma not_date_le_next_month:
  assumes "0 \<le> month now" and "month now \<le> 11"
  shows "\<not> date_le \<lparr>year = fst (nextMonth (year now) (month now)),
                     month = snd (nextMonth (year now) (month now)), day = d, tod = t\<rparr> now"
proof -
  from nextMonth_later [OF assms, of "year now"] show ?thesis
    by (cases now) (auto simp: date_le_def date_less_def)
qed

text \<open>The last day of the month of a date at midnight, as \<^verbatim>\<open>setDate(0)\<close> gives it from the month after.\<close>

lemma setDate_zero_next_month:
  assumes "0 \<le> m" and "m \<le> 11"
  shows "setDate \<lparr>year = fst (nextMonth y m), month = snd (nextMonth y m), day = d, tod = t\<rparr> 0
           = \<lparr>year = y, month = m, day = daysInMonth y m, tod = t\<rparr>"
  using nextMonth_range [OF assms, of y] prevMonth_nextMonth [OF assms, of y]
  by (simp add: setDate_def makeDate_same carryDay_day_zero)

text \<open>
  The method in closed form, for a renewal day from 1 to 31 and a current year outside 0 to 99
  (which the \<^verbatim>\<open>Date\<close> constructor reads as 1900 to 1999).
\<close>

lemma calculateNextRenewal_cases:
  assumes v: "valid_date now"
    and rd: "1 \<le> renewalDay this" "renewalDay this \<le> 31"
    and yr: "\<not> (0 \<le> year now \<and> year now \<le> 99)"
  shows "calculateNextRenewal now this =
           (if daysInMonth (year now) (month now) < renewalDay this
            then \<lparr>year = year now, month = month now,
                  day = daysInMonth (year now) (month now), tod = 0\<rparr>
            else if day now < renewalDay this
            then \<lparr>year = year now, month = month now, day = renewalDay this, tod = 0\<rparr>
            else \<lparr>year = fst (nextMonth (year now) (month now)),
                  month = snd (nextMonth (year now) (month now)),
                  day = min (renewalDay this)
                          (daysInMonth (fst (nextMonth (year now) (month now)))
                                       (snd (nextMonth (year now) (month now)))),
                  tod = 0\<rparr>)"
proof -
  let ?y = "year now" and ?m = "month now" and ?r = "renewalDay this"
  let ?y1 = "fst (nextMonth (year now) (month now))"
  let ?m1 = "snd (nextMonth (year now) (month now))"
  from v have m: "0 \<le> ?m" "?m \<le> 11" and t: "0 \<le> tod now"
    by (simp_all add: valid_date_def)
  from yr have nd: "newDate ?y ?m ?r = makeDate ?y ?m ?r 0"
    by (auto simp: newDate_def)
  note m1 = nextMonth_range [OF m, of ?y]
  show ?thesis
  proof (cases "daysInMonth ?y ?m < ?r")
    case True
    from carryDay_next_month [OF True rd(2)] m
    have n0: "newDate ?y ?m ?r =
                \<lparr>year = ?y1, month = ?m1, day = ?r - daysInMonth ?y ?m, tod = 0\<rparr>"
      by (simp add: nd makeDate_same)
    from daysInMonth_bounds [of ?y ?m] have "?r - daysInMonth ?y ?m \<noteq> ?r"
      by linarith
    with True show ?thesis
      unfolding calculateNextRenewal_def Let_def n0
      by (simp add: not_date_le_next_month [OF m] setDate_zero_next_month [OF m])
  next
    case False
    with rd m have n0: "newDate ?y ?m ?r = \<lparr>year = ?y, month = ?m, day = ?r, tod = 0\<rparr>"
      by (simp add: nd makeDate_same carryDay_in_month)
    show ?thesis
    proof (cases "day now < ?r")
      case True
      with False show ?thesis
        unfolding calculateNextRenewal_def Let_def n0
        by (simp add: date_le_midnight [OF t])
    next
      case past: False
      have le: "date_le \<lparr>year = ?y, month = ?m, day = ?r, tod = 0\<rparr> now"
        using past by (simp add: date_le_midnight [OF t])
      have sm: "setMonth \<lparr>year = ?y, month = ?m, day = ?r, tod = 0\<rparr> (?m + 1)
                  = (case carryDay ?y1 ?m1 ?r of
                       (y', m', d') \<Rightarrow> \<lparr>year = y', month = m', day = d', tod = 0\<rparr>)"
        using m by (simp add: setMonth_def makeDate_next)
      show ?thesis
      proof (cases "?r \<le> daysInMonth ?y1 ?m1")
        case True
        with rd have "carryDay ?y1 ?m1 ?r = (?y1, ?m1, ?r)"
          by (simp add: carryDay_in_month)
        with False past True le sm show ?thesis
          unfolding calculateNextRenewal_def Let_def n0
          by simp
      next
        case over: False
        then have lt: "daysInMonth ?y1 ?m1 < ?r"
          by simp
        from daysInMonth_bounds [of ?y1 ?m1] have ne: "?r - daysInMonth ?y1 ?m1 \<noteq> ?r"
          by linarith
        from carryDay_next_month [OF lt rd(2)] sm
        have "setMonth \<lparr>year = ?y, month = ?m, day = ?r, tod = 0\<rparr> (?m + 1)
                = \<lparr>year = fst (nextMonth ?y1 ?m1), month = snd (nextMonth ?y1 ?m1),
                   day = ?r - daysInMonth ?y1 ?m1, tod = 0\<rparr>"
          by simp
        with False past lt le ne show ?thesis
          unfolding calculateNextRenewal_def Let_def n0
          by (simp add: setDate_zero_next_month [OF m1 [THEN conjunct1] m1 [THEN conjunct2]])
      qed
    qed
  qed
qed


text \<open>
  The result is a date at midnight whose day is the renewal day, or the last day of its month
  when that month is shorter. It is after the current time except on the last day of a month
  shorter than the renewal day, where it is that same day at midnight.
\<close>

lemma calculateNextRenewal_properties:
  assumes v: "valid_date now"
    and rd: "1 \<le> renewalDay this" "renewalDay this \<le> 31"
    and yr: "\<not> (0 \<le> year now \<and> year now \<le> 99)"
  shows "valid_date (calculateNextRenewal now this)"
    and "tod (calculateNextRenewal now this) = 0"
    and "day (calculateNextRenewal now this) =
           min (renewalDay this)
               (daysInMonth (year (calculateNextRenewal now this))
                            (month (calculateNextRenewal now this)))"
    and "date_less now (calculateNextRenewal now this) =
           (\<not> (daysInMonth (year now) (month now) < renewalDay this
                \<and> day now = daysInMonth (year now) (month now)))"
    and "daysInMonth (year now) (month now) < renewalDay this
           \<and> day now = daysInMonth (year now) (month now)
         \<Longrightarrow> calculateNextRenewal now this = now\<lparr>tod := 0\<rparr>"
proof -
  note c = calculateNextRenewal_cases [OF assms]
  from v have m: "0 \<le> month now" "month now \<le> 11"
    and d: "1 \<le> day now" "day now \<le> daysInMonth (year now) (month now)"
    and t: "0 \<le> tod now"
    by (simp_all add: valid_date_def)
  note m1 = nextMonth_range [OF m, of "year now"]
  note b = daysInMonth_bounds [of "year now" "month now"]
    daysInMonth_bounds [of "fst (nextMonth (year now) (month now))" "snd (nextMonth (year now) (month now))"]
  from m m1 rd b show "valid_date (calculateNextRenewal now this)"
    by (simp add: c valid_date_def msPerDay_def)
  show "tod (calculateNextRenewal now this) = 0"
    by (simp add: c)
  from rd show "day (calculateNextRenewal now this) =
           min (renewalDay this)
               (daysInMonth (year (calculateNextRenewal now this))
                            (month (calculateNextRenewal now this)))"
    by (simp add: c)
  from d t nextMonth_later [OF m, of "year now"]
  show "date_less now (calculateNextRenewal now this) =
           (\<not> (daysInMonth (year now) (month now) < renewalDay this
                \<and> day now = daysInMonth (year now) (month now)))"
    by (auto simp: c date_less_def)
  show "calculateNextRenewal now this = now\<lparr>tod := 0\<rparr>"
    if "daysInMonth (year now) (month now) < renewalDay this
           \<and> day now = daysInMonth (year now) (month now)"
  proof -
    from that have "calculateNextRenewal now this =
                      \<lparr>year = year now, month = month now, day = day now, tod = 0\<rparr>"
      by (simp add: c)
    also have "\<dots> = now\<lparr>tod := 0\<rparr>"
      by (cases now) simp
    finally show ?thesis .
  qed
qed

text \<open>
  Claim C3 says that the result is strictly after the current date. At noon of 30 April 2024
  with renewal day 31, the candidate 31 April is 1 May, which is after now, so the month is
  not advanced; the clamp then sets it back to 30 April at midnight, which is before now.
  With renewal day 30 at the same instant the code returns 30 May.
\<close>

theorem calculateNextRenewal_last_day_of_short_month:
  "valid_date \<lparr>year = 2024, month = 3, day = 30, tod = 12 * 60 * 60 * 1000\<rparr>
   \<and> calculateNextRenewal \<lparr>year = 2024, month = 3, day = 30, tod = 12 * 60 * 60 * 1000\<rparr>
        (newSubscription ''u1'' ''Streaming'' 10 USD 31)
        = \<lparr>year = 2024, month = 3, day = 30, tod = 0\<rparr>
   \<and> date_less \<lparr>year = 2024, month = 3, day = 30, tod = 0\<rparr>
        \<lparr>year = 2024, month = 3, day = 30, tod = 12 * 60 * 60 * 1000\<rparr>
   \<and> calculateNextRenewal \<lparr>year = 2024, month = 3, day = 30, tod = 12 * 60 * 60 * 1000\<rparr>
        (newSubscription ''u1'' ''Streaming'' 10 USD 30)
        = \<lparr>year = 2024, month = 4, day = 30, tod = 0\<rparr>"
  by (simp add: calculateNextRenewal_def newSubscription_def newDate_def setMonth_def setDate_def
      makeDate_def carryDay.simps prevMonth_def nextMonth_def daysInMonth_def isLeapYear_def
      date_le_def date_less_def valid_date_def msPerDay_def)

end
